theory Spec2Isabelle
  imports Complex_Main "HOL-Library.List_Lexorder" "HOL-Library.Char_ord" "HOL-Library.Multiset"
begin

section \<open>Data model\<close>

text \<open>
  A shallow embedding of \<^verbatim>\<open>src/main.py\<close> (Kindle Manga Optimizer). File-system
  paths are strings. The dataclass \<^verbatim>\<open>Chapter\<close> carries a name, its directory,
  the ordered image files and the \<^verbatim>\<open>enabled\<close> flag, which defaults to true;
  the property \<^verbatim>\<open>pages\<close> is the number of images.
\<close>

type_synonym path = string

record Chapter =
  name :: string
  dir :: path
  images :: "path list"
  enabled :: bool

definition pages :: "Chapter \<Rightarrow> nat" where
  "pages c = length (images c)"

section \<open>Volume planning\<close>

text \<open>
  \<^verbatim>\<open>range(i, n, g)\<close> for non-negative arguments. Python raises for a zero step;
  \<^verbatim>\<open>build_plan\<close> never passes one, the model returns the empty list there.
\<close>

function py_range :: "nat \<Rightarrow> nat \<Rightarrow> nat \<Rightarrow> nat list" where
  "py_range i n g = (if g = 0 then [] else if i < n then i # py_range (i + g) n g else [])"
  by pat_completeness auto
termination
  by (relation "measure (\<lambda>(i, n, g). n - i)") auto

text \<open>The slice \<^verbatim>\<open>xs[i:j]\<close> for \<open>0 \<le> i \<le> j\<close>; Python clamps at the end of the list.\<close>

definition py_slice :: "'a list \<Rightarrow> nat \<Rightarrow> nat \<Rightarrow> 'a list" where
  "py_slice xs i j = take (j - i) (drop i xs)"

text \<open>
  \<^verbatim>\<open>
  def build_plan(self):
      enabled = [c for c in self.chapters if c.enabled]
      g = max(1, int(self.group_size.get()))
      return [enabled[i:i+g] for i in range(0, len(enabled), g)]
  \<close>
\<close>

definition build_plan :: "Chapter list \<Rightarrow> int \<Rightarrow> Chapter list list" where
  "build_plan chapters group_size =
     (let enabled_chs = filter enabled chapters;
          g = nat (max 1 group_size)
      in map (\<lambda>i. py_slice enabled_chs i (i + g)) (py_range 0 (length enabled_chs) g))"

text \<open>
  \<^verbatim>\<open>update_plan_view\<close> fills the plan tree: one row per volume with its number
  \<^verbatim>\<open>start_v + idx\<close>, its page count and its chapters, and the summary line with the
  number of volumes and the total number of pages. The widget is modelled by the
  values written into it.
\<close>

record plan_row =
  vnum :: int
  vol_pages :: nat
  vol_chapters :: "Chapter list"

record plan_view =
  rows :: "plan_row list"
  total_vols :: nat
  total_pages :: nat

definition update_plan_view :: "Chapter list \<Rightarrow> int \<Rightarrow> int \<Rightarrow> plan_view" where
  "update_plan_view chapters group_size start_volume =
     (let plan = build_plan chapters group_size;
          start_v = max 1 start_volume
      in \<lparr>rows = map (\<lambda>(idx, vol).
                  \<lparr>vnum = start_v + int idx,
                   vol_pages = sum_list (map pages vol),
                   vol_chapters = vol\<rparr>) (enumerate 0 plan),
          total_vols = length plan,
          total_pages = sum_list (map pages (concat plan))\<rparr>)"

text \<open>The number of groups, \<open>\<lceil>n / g\<rceil>\<close>, in natural-number arithmetic.\<close>

definition ceil_div :: "nat \<Rightarrow> nat \<Rightarrow> nat" where
  "ceil_div n g = (n + g - 1) div g"

text \<open>Three chapters, the second one disabled, used to instantiate the planner.\<close>

definition demo_chapters :: "Chapter list" where
  "demo_chapters =
     [\<lparr>name = ''Chapter 1'', dir = ''r/Chapter 1'', images = [''1.jpg'', ''2.jpg'', ''3.jpg''], enabled = True\<rparr>,
      \<lparr>name = ''Chapter 2'', dir = ''r/Chapter 2'', images = [''1.jpg''], enabled = False\<rparr>,
      \<lparr>name = ''Chapter 10'', dir = ''r/Chapter 10'', images = [''1.jpg'', ''2.jpg''], enabled = True\<rparr>,
      \<lparr>name = ''Chapter 11'', dir = ''r/Chapter 11'', images = [''1.jpg''], enabled = True\<rparr>]"

section \<open>Strings\<close>

text \<open>
  A Python \<^verbatim>\<open>str\<close> is modelled as a \<open>string\<close> whose characters are read as the code
  points 0 to 255 (Latin-1); the names the program handles are taken from that range.
  On it \<^verbatim>\<open>str.lower\<close> maps \<open>A\<close>--\<open>Z\<close> and the accented capitals 0xC0--0xDE (but
  0xD7, the multiplication sign) to the letter 32 places up, \<^verbatim>\<open>str.isspace\<close> holds
  for 9--13, 28--32, 0x85 and 0xA0, and the decimal digits are \<open>0\<close>--\<open>9\<close>. Strings
  compare lexicographically by code point, as Python's do.
\<close>

definition char_code :: "char \<Rightarrow> nat" where
  "char_code c = of_char c"

definition py_isspace :: "char \<Rightarrow> bool" where
  "py_isspace c = (let n = char_code c in
     (9 \<le> n \<and> n \<le> 13) \<or> (28 \<le> n \<and> n \<le> 32) \<or> n = 133 \<or> n = 160)"

definition py_isdigit :: "char \<Rightarrow> bool" where
  "py_isdigit c = (let n = char_code c in 48 \<le> n \<and> n \<le> 57)"

definition py_lower_char :: "char \<Rightarrow> char" where
  "py_lower_char c = (let n = char_code c in
     if (65 \<le> n \<and> n \<le> 90) \<or> (192 \<le> n \<and> n \<le> 222 \<and> n \<noteq> 215)
     then char_of (n + 32) else c)"

definition py_lower :: "string \<Rightarrow> string" where
  "py_lower s = map py_lower_char s"

definition py_strip :: "string \<Rightarrow> string" where
  "py_strip s = rev (dropWhile py_isspace (rev (dropWhile py_isspace s)))"

definition py_startswith :: "string \<Rightarrow> string \<Rightarrow> bool" where
  "py_startswith s p = (take (length p) s = p)"

text \<open>
  \<^verbatim>\<open>int(s)\<close> on a string: surrounding white space is dropped, one sign is allowed,
  then decimal digits follow, single underscores allowed between digits. Anything else
  raises \<^verbatim>\<open>ValueError\<close>, the value \<open>None\<close> here. (The interpreter's limit of 4300
  digits is out of reach of a file name and is left out.)
\<close>

fun py_digits :: "int \<Rightarrow> bool \<Rightarrow> string \<Rightarrow> int option" where
  "py_digits acc prev [] = (if prev then Some acc else None)"
| "py_digits acc prev (c # cs) =
     (if py_isdigit c then py_digits (10 * acc + (int (char_code c) - 48)) True cs
      else if c = CHR ''_'' \<and> prev then py_digits acc False cs
      else None)"

definition py_int :: "string \<Rightarrow> int option" where
  "py_int s =
     (case py_strip s of
        [] \<Rightarrow> None
      | c # cs \<Rightarrow>
          if c = CHR ''-'' then map_option uminus (py_digits 0 False cs)
          else if c = CHR ''+'' then py_digits 0 False cs
          else py_digits 0 False (c # cs))"

section \<open>Regular expressions of the profiles\<close>

text \<open>
  The regular expressions of the two profiles use character classes, sequence,
  alternation, greedy and lazy repetition of a class, one capture group and the end
  anchor. \<open>rx_run\<close> is a backtracking matcher: from a state (rest of the input, text of
  group 1) it returns the states after a match, in the order in which Python's
  \<^verbatim>\<open>re\<close> tries them (greedy repetition longest first, lazy repetition shortest
  first, the left alternative first). \<^verbatim>\<open>$\<close> matches at the end and before a final
  newline. \<open>rx_search\<close> is \<^verbatim>\<open>pattern.search(s)\<close> reduced to what the program
  reads from it: \<open>None\<close> for no match, otherwise \<^verbatim>\<open>m.group(1)\<close>.
\<close>

datatype rx =
    Cls "char \<Rightarrow> bool"
  | Seq rx rx
  | Alt rx rx
  | Star "char \<Rightarrow> bool"
  | LazyStar "char \<Rightarrow> bool"
  | Plus "char \<Rightarrow> bool"
  | Group rx
  | Eos

type_synonym rx_state = "string \<times> string option"

fun rx_run :: "rx \<Rightarrow> rx_state \<Rightarrow> rx_state list" where
  "rx_run (Cls p) (s, g) = (case s of [] \<Rightarrow> [] | c # cs \<Rightarrow> if p c then [(cs, g)] else [])"
| "rx_run (Seq a b) st = concat (map (rx_run b) (rx_run a st))"
| "rx_run (Alt a b) st = rx_run a st @ rx_run b st"
| "rx_run (Star p) (s, g) = map (\<lambda>k. (drop k s, g)) (rev [0..<Suc (length (takeWhile p s))])"
| "rx_run (LazyStar p) (s, g) = map (\<lambda>k. (drop k s, g)) [0..<Suc (length (takeWhile p s))]"
| "rx_run (Plus p) (s, g) = map (\<lambda>k. (drop k s, g)) (rev [1..<Suc (length (takeWhile p s))])"
| "rx_run (Group a) (s, g) =
     map (\<lambda>(s', g'). (s', Some (take (length s - length s') s))) (rx_run a (s, g))"
| "rx_run Eos (s, g) = (if s = [] \<or> s = [CHR 0x0A] then [(s, g)] else [])"

fun rx_search_from :: "rx \<Rightarrow> string \<Rightarrow> string option option" where
  "rx_search_from r [] = (case rx_run r ([], None) of [] \<Rightarrow> None | (_, g) # _ \<Rightarrow> Some g)"
| "rx_search_from r (c # cs) =
     (case rx_run r (c # cs, None) of [] \<Rightarrow> rx_search_from r cs | (_, g) # _ \<Rightarrow> Some g)"

text \<open>
  A compiled pattern, as the program uses one: the name goes in; \<open>None\<close> is no match,
  \<open>Some None\<close> a match whose \<^verbatim>\<open>group(1)\<close> gives no string (the group took no part
  in the match, or the pattern has no group), \<open>Some (Some cap)\<close> a match that captured
  \<open>cap\<close>.
\<close>

type_synonym pattern = "string \<Rightarrow> string option option"

definition rx_search :: "rx \<Rightarrow> pattern" where
  "rx_search r s = rx_search_from r s"

text \<open>Under \<^verbatim>\<open>re.I\<close> a literal character matches both of its cases.\<close>

definition ci :: "char \<Rightarrow> rx" where
  "ci c = Cls (\<lambda>x. py_lower_char x = py_lower_char c)"

fun ci_str :: "string \<Rightarrow> rx" where
  "ci_str [c] = ci c"
| "ci_str (c # cs) = Seq (ci c) (ci_str cs)"
| "ci_str [] = Star (\<lambda>_. False)"

text \<open>\<^verbatim>\<open>\.(?:jpg|jpeg|png|webp)$\<close>, ignoring case.\<close>

definition image_ext_rx :: rx where
  "image_ext_rx =
     Seq (Cls (\<lambda>x. x = CHR ''.''))
       (Seq (Alt (ci_str ''jpg'') (Alt (ci_str ''jpeg'') (Alt (ci_str ''png'') (ci_str ''webp''))))
          Eos)"

section \<open>Profiles and sort keys\<close>

record SourceProfile =
  key :: string
  label :: string
  chapter_dir_regex :: "pattern option"
  image_file_regex :: "pattern option"
  expects_subfolders :: bool

text \<open>
  \<^verbatim>\<open>PROFILE_TMO\<close>: chapters \<^verbatim>\<open>(?:cap[i\'i]tulo|chapter|ch)[^\d]*(\d+)\<close>, images
  \<^verbatim>\<open>(\d+)\.(?:jpg|jpeg|png|webp)$\<close>, both ignoring case (the second letter of the
  class is i with an acute accent, code point 0xED).
\<close>

definition PROFILE_TMO :: SourceProfile where
  "PROFILE_TMO =
     \<lparr>key = ''TMO'', label = ''TMO (mixto)'',
      chapter_dir_regex = Some (rx_search
        (Seq (Alt (Seq (ci_str ''cap'') (Seq (Alt (ci CHR ''i'') (ci (CHR 0xED))) (ci_str ''tulo'')))
                (Alt (ci_str ''chapter'') (ci_str ''ch'')))
           (Seq (Star (\<lambda>x. \<not> py_isdigit x)) (Group (Plus py_isdigit))))),
      image_file_regex = Some (rx_search (Seq (Group (Plus py_isdigit)) image_ext_rx)),
      expects_subfolders = True\<rparr>"

text \<open>
  \<^verbatim>\<open>PROFILE_INMANGA\<close>: chapters \<^verbatim>\<open>chapter\s*0*?(\d+)$\<close>, images
  \<^verbatim>\<open>0*?(\d+)\.(?:jpg|jpeg|png|webp)$\<close>, both ignoring case.
\<close>

definition PROFILE_INMANGA :: SourceProfile where
  "PROFILE_INMANGA =
     \<lparr>key = ''INMANGA'', label = ''INMANGA (Chapter XX / 001.jpg)'',
      chapter_dir_regex = Some (rx_search
        (Seq (ci_str ''chapter'')
           (Seq (Star py_isspace)
              (Seq (LazyStar (\<lambda>x. x = CHR ''0'')) (Seq (Group (Plus py_isdigit)) Eos))))),
      image_file_regex = Some (rx_search
        (Seq (LazyStar (\<lambda>x. x = CHR ''0'')) (Seq (Group (Plus py_isdigit)) image_ext_rx))),
      expects_subfolders = True\<rparr>"

definition PROFILES :: "string \<Rightarrow> SourceProfile option" where
  "PROFILES k = (if k = key PROFILE_TMO then Some PROFILE_TMO
                 else if k = key PROFILE_INMANGA then Some PROFILE_INMANGA else None)"

text \<open>
  The keys are the tuples \<^verbatim>\<open>(0, n)\<close> and \<^verbatim>\<open>(1, s)\<close>: \<open>NumKey n\<close> and
  \<open>NameKey s\<close>. Python compares tuples component by component, so every \<^verbatim>\<open>(0, n)\<close>
  is below every \<^verbatim>\<open>(1, s)\<close>, two numeric keys compare as integers and two name keys
  as strings; an integer is never compared with a string.
\<close>

datatype sort_key = NumKey int | NameKey string

instantiation sort_key :: linorder
begin

fun less_eq_sort_key :: "sort_key \<Rightarrow> sort_key \<Rightarrow> bool" where
  "less_eq_sort_key (NumKey a) (NumKey b) = (a \<le> b)"
| "less_eq_sort_key (NumKey a) (NameKey t) = True"
| "less_eq_sort_key (NameKey s) (NumKey b) = False"
| "less_eq_sort_key (NameKey s) (NameKey t) = (s \<le> t)"

definition less_sort_key :: "sort_key \<Rightarrow> sort_key \<Rightarrow> bool" where
  "less_sort_key x y = (x \<le> y \<and> \<not> y \<le> x)"

instance
proof
  fix x y z :: sort_key
  show "(x < y) = (x \<le> y \<and> \<not> y \<le> x)" by (simp add: less_sort_key_def)
  show "x \<le> x" by (cases x) simp_all
  show "x \<le> y \<Longrightarrow> y \<le> z \<Longrightarrow> x \<le> z"
    by (cases x; cases y; cases z; simp; erule (1) order_trans)
  show "x \<le> y \<Longrightarrow> y \<le> x \<Longrightarrow> x = y" by (cases x; cases y; simp)
  show "x \<le> y \<or> y \<le> x" by (cases x; cases y; simp add: linear)
qed

end

text \<open>
  \<^verbatim>\<open>
  def sort_chapter_key(self, p: Path) -> tuple:
      if self.chapter_dir_regex:
          m = self.chapter_dir_regex.search(p.name)
          if m:
              try:
                  return (0, int(m.group(1)))
              except:
                  pass
      return (1, p.name.lower())
  \<close>
  \<^verbatim>\<open>sort_image_key\<close> has the same body over \<^verbatim>\<open>image_file_regex\<close>; \<open>regex_key\<close>
  is that body, and the argument is the name \<^verbatim>\<open>p.name\<close>.
\<close>

definition regex_key :: "pattern option \<Rightarrow> string \<Rightarrow> sort_key" where
  "regex_key rgx nm =
     (case rgx of
        None \<Rightarrow> NameKey (py_lower nm)
      | Some search \<Rightarrow>
          (case search nm of
             None \<Rightarrow> NameKey (py_lower nm)
           | Some None \<Rightarrow> NameKey (py_lower nm)
           | Some (Some cap) \<Rightarrow>
               (case py_int cap of
                  None \<Rightarrow> NameKey (py_lower nm)
                | Some n \<Rightarrow> NumKey n)))"

definition sort_chapter_key :: "SourceProfile \<Rightarrow> string \<Rightarrow> sort_key" where
  "sort_chapter_key prof nm = regex_key (chapter_dir_regex prof) nm"

definition sort_image_key :: "SourceProfile \<Rightarrow> string \<Rightarrow> sort_key" where
  "sort_image_key prof nm = regex_key (image_file_regex prof) nm"

text \<open>
  \<^verbatim>\<open>list.sort(key=k)\<close> is a stable sort by the key; so is \<open>sort_key k\<close>, and a
  stable sort by a given key has one result.

  A list is in natural order for a key function when its numerically keyed entries
  come first, ascending by their number, and the other entries follow, each keyed by
  its lower-cased name and ascending in that name.
\<close>

definition is_num_key :: "sort_key \<Rightarrow> bool" where
  "is_num_key k = (case k of NumKey _ \<Rightarrow> True | NameKey _ \<Rightarrow> False)"

definition key_num :: "sort_key \<Rightarrow> int" where
  "key_num k = (case k of NumKey n \<Rightarrow> n | NameKey _ \<Rightarrow> 0)"

definition naturally_ordered :: "(string \<Rightarrow> sort_key) \<Rightarrow> string list \<Rightarrow> bool" where
  "naturally_ordered k ys =
     (ys = filter (\<lambda>x. is_num_key (k x)) ys @ filter (\<lambda>x. \<not> is_num_key (k x)) ys
      \<and> sorted (map (\<lambda>x. key_num (k x)) (filter (\<lambda>x. is_num_key (k x)) ys))
      \<and> sorted (map py_lower (filter (\<lambda>x. \<not> is_num_key (k x)) ys))
      \<and> list_all (\<lambda>x. k x = NameKey (py_lower x)) (filter (\<lambda>x. \<not> is_num_key (k x)) ys))"

section \<open>Scanning the source folder\<close>

text \<open>
  The exceptions the modelled code can raise: \<^verbatim>\<open>OSError\<close> (with its subclasses, such
  as \<^verbatim>\<open>PermissionError\<close>) from the file system, \<^verbatim>\<open>KeyError\<close> from a dictionary,
  \<^verbatim>\<open>ZeroDivisionError\<close> and \<^verbatim>\<open>ValueError\<close>.
\<close>

datatype py_error = OSError | KeyError | ZeroDivisionError | ValueError

text \<open>
  What the scanner reads of the file system. A node has its path and the outcomes of
  the three calls the scanner makes on it: \<^verbatim>\<open>is_dir()\<close>, \<^verbatim>\<open>is_file()\<close> and
  \<^verbatim>\<open>iterdir()\<close>. Each of them gives its answer or the error it raises:
  \<^verbatim>\<open>iterdir()\<close> on a directory that cannot be read (or on a node that is no
  directory), \<^verbatim>\<open>is_dir()\<close> and \<^verbatim>\<open>is_file()\<close> on an entry whose status cannot be
  read (\<^verbatim>\<open>pathlib\<close> turns a missing entry into the answer false, and lets
  \<^verbatim>\<open>PermissionError\<close> through). The entries of a listing come in the order the system
  gives them.
\<close>

datatype fs_node =
  FsNode (fpath: path) (is_dir: "py_error + bool") (is_file: "py_error + bool")
    (iterdir: "py_error + fs_node list")

text \<open>\<^verbatim>\<open>p.name\<close>, the last component of a path.\<close>

definition path_name :: "path \<Rightarrow> string" where
  "path_name p = rev (takeWhile (\<lambda>c. c \<noteq> CHR ''/'') (rev p))"

text \<open>
  \<^verbatim>\<open>p.suffix\<close> as \<^verbatim>\<open>pathlib\<close> computes it: with \<open>i\<close> the index of the last dot
  of the name, the suffix is \<^verbatim>\<open>name[i:]\<close> when \<open>0 < i < len(name) - 1\<close> and empty
  otherwise; a name that only starts with a dot has no suffix.
\<close>

fun py_rfind :: "char \<Rightarrow> string \<Rightarrow> nat option" where
  "py_rfind c [] = None"
| "py_rfind c (x # xs) =
     (case py_rfind c xs of
        Some i \<Rightarrow> Some (Suc i)
      | None \<Rightarrow> if x = c then Some 0 else None)"

definition path_suffix :: "path \<Rightarrow> string" where
  "path_suffix p =
     (let nm = path_name p in
      case py_rfind CHR ''.'' nm of
        None \<Rightarrow> []
      | Some i \<Rightarrow> if 0 < i \<and> i < length nm - 1 then drop i nm else [])"

definition formats :: "string set" where
  "formats = {''.jpg'', ''.jpeg'', ''.png'', ''.webp''}"

text \<open>
  A comprehension \<^verbatim>\<open>[x for x in xs if p(x)]\<close> whose condition may raise: the
  entries are tested in order, and the first test that raises ends the comprehension
  with its error.
\<close>

fun filter_raising :: "('a \<Rightarrow> py_error + bool) \<Rightarrow> 'a list \<Rightarrow> py_error + 'a list" where
  "filter_raising p [] = Inr []"
| "filter_raising p (x # xs) =
     (case p x of
        Inl e \<Rightarrow> Inl e
      | Inr b \<Rightarrow>
          (case filter_raising p xs of
             Inl e \<Rightarrow> Inl e
           | Inr ys \<Rightarrow> Inr (if b then x # ys else ys)))"

text \<open>
  \<^verbatim>\<open>f.is_file() and f.suffix.lower() in formats\<close>, then
  \<^verbatim>\<open>
  files = [f for f in sub.iterdir() if f.is_file() and f.suffix.lower() in formats]
  files.sort(key=profile.sort_image_key)
  \<close>
  on a folder; the program has these two lines once for a subfolder and once for the
  selected folder itself. The listing is read first, then each entry is tested.
\<close>

definition is_image_file :: "fs_node \<Rightarrow> py_error + bool" where
  "is_image_file f =
     (case is_file f of
        Inl e \<Rightarrow> Inl e
      | Inr b \<Rightarrow> Inr (b \<and> py_lower (path_suffix (fpath f)) \<in> formats))"

definition collect_images :: "SourceProfile \<Rightarrow> fs_node \<Rightarrow> py_error + fs_node list" where
  "collect_images profile d =
     (case iterdir d of
        Inl e \<Rightarrow> Inl e
      | Inr entries \<Rightarrow>
          (case filter_raising is_image_file entries of
             Inl e \<Rightarrow> Inl e
           | Inr files \<Rightarrow>
               Inr (sort_key (\<lambda>f. sort_image_key profile (path_name (fpath f))) files)))"

text \<open>
  The outcome of \<^verbatim>\<open>scan_images\<close>: the list \<^verbatim>\<open>self.chapters\<close> as the call leaves
  it, and the exception that left the call, if one did. \<open>make_chapter d files\<close> is
  \<^verbatim>\<open>Chapter(name=d.name, dir=d, images=files)\<close>, with \<^verbatim>\<open>enabled\<close> at its default.
\<close>

record scan_result =
  chapters :: "Chapter list"
  raised :: "py_error option"

definition make_chapter :: "fs_node \<Rightarrow> fs_node list \<Rightarrow> Chapter" where
  "make_chapter d files =
     \<lparr>name = path_name (fpath d), dir = fpath d, images = map fpath files, enabled = True\<rparr>"

text \<open>
  The loop \<^verbatim>\<open>for sub in subdirs\<close>; the list of chapters is the accumulator. Nothing
  in \<^verbatim>\<open>scan_images\<close> catches an exception, so a call that raises ends the loop
  and the scan.
\<close>

fun scan_subdirs :: "SourceProfile \<Rightarrow> fs_node list \<Rightarrow> Chapter list \<Rightarrow> scan_result" where
  "scan_subdirs profile [] chs = \<lparr>chapters = chs, raised = None\<rparr>"
| "scan_subdirs profile (sub # rest) chs =
     (case collect_images profile sub of
        Inl e \<Rightarrow> \<lparr>chapters = chs, raised = Some e\<rparr>
      | Inr files \<Rightarrow>
          scan_subdirs profile rest
            (if files \<noteq> [] then chs @ [make_chapter sub files] else chs))"

text \<open>
  \<^verbatim>\<open>
  def scan_images(self):
      self.chapters.clear()
      if not self.selected_folder:
          return
      profile = PROFILES[self.profile_key.get()]
      formats = {'.jpg', '.jpeg', '.png', '.webp'}
      if profile.expects_subfolders and self.process_subfolders.get():
          subdirs = [d for d in self.selected_folder.iterdir() if d.is_dir()]
          subdirs.sort(key=profile.sort_chapter_key)
          for sub in subdirs:
              files = [f for f in sub.iterdir() if f.is_file() and f.suffix.lower() in formats]
              files.sort(key=profile.sort_image_key)
              if files:
                  self.chapters.append(Chapter(name=sub.name, dir=sub, images=files))
      else:
          files = [f for f in self.selected_folder.iterdir() if f.is_file() and f.suffix.lower() in formats]
          files.sort(key=profile.sort_image_key)
          if files:
              self.chapters.append(Chapter(name=self.selected_folder.name, dir=self.selected_folder, images=files))
  \<close>
\<close>

definition scan_images :: "fs_node option \<Rightarrow> string \<Rightarrow> bool \<Rightarrow> scan_result" where
  "scan_images selected_folder profile_key process_subfolders =
     (case selected_folder of
        None \<Rightarrow> \<lparr>chapters = [], raised = None\<rparr>
      | Some folder \<Rightarrow>
          (case PROFILES profile_key of
             None \<Rightarrow> \<lparr>chapters = [], raised = Some KeyError\<rparr>
           | Some profile \<Rightarrow>
               if expects_subfolders profile \<and> process_subfolders
               then (case iterdir folder of
                       Inl e \<Rightarrow> \<lparr>chapters = [], raised = Some e\<rparr>
                     | Inr entries \<Rightarrow>
                         (case filter_raising is_dir entries of
                            Inl e \<Rightarrow> \<lparr>chapters = [], raised = Some e\<rparr>
                          | Inr subdirs \<Rightarrow>
                              scan_subdirs profile
                                (sort_key (\<lambda>d. sort_chapter_key profile (path_name (fpath d)))
                                   subdirs) []))
               else (case collect_images profile folder of
                       Inl e \<Rightarrow> \<lparr>chapters = [], raised = Some e\<rparr>
                     | Inr files \<Rightarrow>
                         \<lparr>chapters = (if files \<noteq> [] then [make_chapter folder files] else []),
                          raised = None\<rparr>)))"

text \<open>
  For the statements. A node is readable when it can be listed, and \<open>listed\<close> are its
  entries then. A folder is in order when it can be listed and \<^verbatim>\<open>is_file()\<close>
  answers on each of its entries; its image files are then the entries that are
  regular files with one of the four suffixes, sorted by the image key. The subfolders
  of a node are its entries on which \<^verbatim>\<open>is_dir()\<close> answers true. \<open>chapters_of\<close> are
  the chapters of a list of folders: one for each folder that holds an image file, in
  the order of the list. \<open>scan_reads_ok\<close> says that every call the scan makes on the
  file system answers: in subfolder mode the listing of the selected folder,
  \<^verbatim>\<open>is_dir()\<close> on each of its entries, and the listing and the \<^verbatim>\<open>is_file()\<close>
  calls of each subfolder; otherwise the listing and the \<^verbatim>\<open>is_file()\<close> calls of the
  selected folder.
\<close>

definition readable :: "fs_node \<Rightarrow> bool" where
  "readable d = (\<not> isl (iterdir d))"

definition listed :: "fs_node \<Rightarrow> fs_node list" where
  "listed d = (case iterdir d of Inl _ \<Rightarrow> [] | Inr entries \<Rightarrow> entries)"

definition folder_ok :: "fs_node \<Rightarrow> bool" where
  "folder_ok d = (readable d \<and> list_all (\<lambda>f. \<not> isl (is_file f)) (listed d))"

definition image_files :: "SourceProfile \<Rightarrow> fs_node \<Rightarrow> fs_node list" where
  "image_files profile d =
     sort_key (\<lambda>f. sort_image_key profile (path_name (fpath f)))
       (filter (\<lambda>f. is_file f = Inr True \<and> py_lower (path_suffix (fpath f)) \<in> formats) (listed d))"

definition subfolders :: "fs_node \<Rightarrow> fs_node list" where
  "subfolders d = filter (\<lambda>e. is_dir e = Inr True) (listed d)"

definition chapters_of :: "SourceProfile \<Rightarrow> fs_node list \<Rightarrow> Chapter list" where
  "chapters_of profile ds =
     map (\<lambda>d. make_chapter d (image_files profile d))
       (filter (\<lambda>d. image_files profile d \<noteq> []) ds)"

definition scan_reads_ok :: "SourceProfile \<Rightarrow> bool \<Rightarrow> fs_node \<Rightarrow> bool" where
  "scan_reads_ok profile process_subfolders folder =
     (if expects_subfolders profile \<and> process_subfolders
      then readable folder
           \<and> list_all (\<lambda>d. \<not> isl (is_dir d)) (listed folder)
           \<and> list_all folder_ok (subfolders folder)
      else folder_ok folder)"

text \<open>
  Three folders to run the scanner on. In the first every call answers; a chapter
  holds a nested folder named like an image, one holds no image but a file named
  \<^verbatim>\<open>.jpg\<close>, and an image lies beside the chapters. In the second, the folder of
  chapter 1 cannot be listed. In the third the selected folder can be listed but the
  status of its entry cannot be read, so that \<^verbatim>\<open>is_dir()\<close> raises on it.
\<close>

definition leaf :: "path \<Rightarrow> fs_node" where
  "leaf p = FsNode p (Inr False) (Inr True) (Inl OSError)"

definition dir_node :: "path \<Rightarrow> fs_node list \<Rightarrow> fs_node" where
  "dir_node p entries = FsNode p (Inr True) (Inr False) (Inr entries)"

definition demo_root :: fs_node where
  "demo_root = dir_node ''lib''
     [dir_node ''lib/Chapter 10'' [leaf ''lib/Chapter 10/2.jpg'', leaf ''lib/Chapter 10/1.PNG''],
      leaf ''lib/cover.jpg'',
      dir_node ''lib/Chapter 2'' [leaf ''lib/Chapter 2/notes.txt'', leaf ''lib/Chapter 2/.jpg''],
      dir_node ''lib/Chapter 1'' [leaf ''lib/Chapter 1/10.jpg'', leaf ''lib/Chapter 1/9.jpeg'',
         dir_node ''lib/Chapter 1/x.jpg'' []]]"

definition locked_root :: fs_node where
  "locked_root = dir_node ''lib''
     [dir_node ''lib/Chapter 2'' [leaf ''lib/Chapter 2/1.jpg''],
      FsNode ''lib/Chapter 1'' (Inr True) (Inr False) (Inl OSError)]"

definition guarded_root :: fs_node where
  "guarded_root = dir_node ''lib''
     [FsNode ''lib/Chapter 1'' (Inl OSError) (Inl OSError)
        (Inr [leaf ''lib/Chapter 1/1.jpg''])]"

section \<open>Image processing\<close>

text \<open>
  The image libraries (Pillow, OpenCV) are outside the program; their operations are
  the fields of a record, over any type of images. An operation gives the new image
  or the exception it raised. The conversions between Pillow images and OpenCV arrays
  change the representation only and are left out. A rectangle is \<open>(x, y, w, h)\<close>.
  \<open>content_rect\<close> is the Otsu threshold (inverted, so that content is foreground),
  \<^verbatim>\<open>findContours\<close> for the external contours and \<^verbatim>\<open>boundingRect\<close> of their points:
  \<open>None\<close> when there is no contour.
\<close>

type_synonym rect = "nat \<times> nat \<times> nat \<times> nat"

record 'img image_ops =
  open_rgb :: "path \<Rightarrow> py_error + 'img"
  img_width :: "'img \<Rightarrow> int"
  img_height :: "'img \<Rightarrow> int"
  resize_lanczos :: "'img \<Rightarrow> int \<times> int \<Rightarrow> py_error + 'img"
  save_jpeg :: "'img \<Rightarrow> path \<Rightarrow> int \<Rightarrow> py_error + unit"
  grayscale_rgb :: "'img \<Rightarrow> py_error + 'img"
  autocontrast :: "'img \<Rightarrow> py_error + 'img"
  bilateral_filter :: "'img \<Rightarrow> py_error + 'img"
  adaptive_threshold_gaussian :: "'img \<Rightarrow> py_error + 'img"
  clahe :: "real \<Rightarrow> nat \<Rightarrow> 'img \<Rightarrow> py_error + 'img"
  gaussian_unsharp :: "real \<Rightarrow> real \<Rightarrow> 'img \<Rightarrow> py_error + 'img"
  fast_nl_means :: "nat \<Rightarrow> 'img \<Rightarrow> py_error + 'img"
  ni_black_threshold :: "'img \<Rightarrow> py_error + 'img"
  content_rect :: "'img \<Rightarrow> py_error + rect option"
  crop :: "rect \<Rightarrow> 'img \<Rightarrow> py_error + 'img"
  pad_white :: "nat \<Rightarrow> 'img \<Rightarrow> py_error + 'img"
  enhance_contrast :: "real \<Rightarrow> 'img \<Rightarrow> py_error + 'img"
  enhance_sharpness :: "real \<Rightarrow> 'img \<Rightarrow> py_error + 'img"
  quantize_dither :: "'img \<Rightarrow> py_error + 'img"

text \<open>
  The settings the pipeline and the page export read (Tk variables in the program),
  and \<^verbatim>\<open>has_ximgproc\<close>, set once when the program starts.
\<close>

record config =
  target_width :: int
  jpg_quality :: int
  contrast_boost :: real
  sharpness_boost :: real
  noise_reduction :: bool
  auto_contrast :: bool
  to_grayscale :: bool
  adaptive_threshold :: bool
  preset_name :: string
  eink_dither :: bool
  has_ximgproc :: bool

text \<open>
  \<open>then_do r f\<close> goes on with \<open>f\<close> when \<open>r\<close> is a value and stops at an exception;
  \<open>or_keep r x\<close> is \<^verbatim>\<open>try: x = r  except Exception: pass\<close>.
\<close>

definition then_do :: "'e + 'a \<Rightarrow> ('a \<Rightarrow> 'e + 'b) \<Rightarrow> 'e + 'b" where
  "then_do r f = (case r of Inl e \<Rightarrow> Inl e | Inr x \<Rightarrow> f x)"

definition or_keep :: "'e + 'a \<Rightarrow> 'a \<Rightarrow> 'a" where
  "or_keep r x = (case r of Inl e \<Rightarrow> x | Inr y \<Rightarrow> y)"

text \<open>
  The helpers \<^verbatim>\<open>_unsharp_mask\<close>, \<^verbatim>\<open>_clahe_gray\<close>, \<^verbatim>\<open>_nl_means\<close> (which falls
  back to the bilateral filter when the denoiser raises), \<^verbatim>\<open>_sauvola_like\<close> and
  \<^verbatim>\<open>_auto_trim_and_pad\<close>:
  \<^verbatim>\<open>
  def _auto_trim_and_pad(self, img_cv, pad_px=16):
      gray = cv2.cvtColor(img_cv, cv2.COLOR_BGR2GRAY)
      thr = cv2.threshold(gray, 0, 255, cv2.THRESH_BINARY_INV+cv2.THRESH_OTSU)[1]
      contours, _ = cv2.findContours(thr, cv2.RETR_EXTERNAL, cv2.CHAIN_APPROX_SIMPLE)
      if not contours:
          return img_cv
      x,y,w,h = cv2.boundingRect(np.vstack(contours))
      cropped = img_cv[y:y+h, x:x+w]
      h_, w_ = cropped.shape[:2]
      canvas = np.full((h_ + 2*pad_px, w_ + 2*pad_px, 3), 255, dtype=np.uint8)
      canvas[pad_px:pad_px+h_, pad_px:pad_px+w_] = cropped
      return canvas
  \<close>
\<close>

definition unsharp_mask :: "'img image_ops \<Rightarrow> 'img \<Rightarrow> real \<Rightarrow> real \<Rightarrow> py_error + 'img" where
  "unsharp_mask ops img_cv radius amount = gaussian_unsharp ops radius amount img_cv"

definition clahe_gray :: "'img image_ops \<Rightarrow> 'img \<Rightarrow> real \<Rightarrow> nat \<Rightarrow> py_error + 'img" where
  "clahe_gray ops img_cv clip tile = clahe ops clip tile img_cv"

definition nl_means :: "'img image_ops \<Rightarrow> 'img \<Rightarrow> nat \<Rightarrow> py_error + 'img" where
  "nl_means ops img_cv strength =
     (case fast_nl_means ops strength img_cv of
        Inl e \<Rightarrow> bilateral_filter ops img_cv
      | Inr r \<Rightarrow> Inr r)"

definition sauvola_like :: "'img image_ops \<Rightarrow> config \<Rightarrow> 'img \<Rightarrow> py_error + 'img" where
  "sauvola_like ops cfg img_cv =
     (if has_ximgproc cfg then ni_black_threshold ops img_cv
      else adaptive_threshold_gaussian ops img_cv)"

definition auto_trim_and_pad :: "'img image_ops \<Rightarrow> 'img \<Rightarrow> nat \<Rightarrow> py_error + 'img" where
  "auto_trim_and_pad ops img_cv pad_px =
     then_do (content_rect ops img_cv) (\<lambda>contours.
       case contours of
         None \<Rightarrow> Inr img_cv
       | Some r \<Rightarrow> then_do (crop ops r img_cv) (pad_white ops pad_px))"

text \<open>
  The chain \<^verbatim>\<open>if p.startswith("manga limpio"): ... elif ...\<close> of
  \<^verbatim>\<open>enhance_image_preset\<close>, on \<^verbatim>\<open>p = preset.strip().lower()\<close>. The last two
  literals are \<^verbatim>\<open>texto peque\~no\<close> and \<^verbatim>\<open>s\'olo recorte\<close>, with n tilde (0xF1) and
  o acute (0xF3).
\<close>

definition preset_branch :: "'img image_ops \<Rightarrow> config \<Rightarrow> string \<Rightarrow> 'img \<Rightarrow> py_error + 'img" where
  "preset_branch ops cfg p img_cv =
     (if py_startswith p ''manga limpio'' then
        then_do (clahe_gray ops img_cv 2.0 8) (\<lambda>i. unsharp_mask ops i 1.0 0.6)
      else if py_startswith p ''manga antiguo'' then
        then_do (clahe_gray ops img_cv 2.6 8) (\<lambda>i. unsharp_mask ops i 1.0 0.5)
      else if py_startswith p ''escaneo con artefactos'' then
        then_do (nl_means ops img_cv 6) (\<lambda>i. unsharp_mask ops i 1.2 0.6)
      else if py_startswith p (''texto peque'' @ [CHR 0xF1] @ ''o'') then
        sauvola_like ops cfg img_cv
      else if py_startswith p (''s'' @ [CHR 0xF3] @ ''lo recorte'') then
        Inr img_cv
      else Inr img_cv)"

text \<open>
  \<^verbatim>\<open>enhance_image_preset\<close>. The two first toggles are not guarded, the next two are
  inside \<^verbatim>\<open>try ... except Exception: pass\<close>.
\<close>

definition enhance_image_preset :: "'img image_ops \<Rightarrow> config \<Rightarrow> 'img \<Rightarrow> string \<Rightarrow> py_error + 'img" where
  "enhance_image_preset ops cfg img preset =
     then_do (if to_grayscale cfg then grayscale_rgb ops img else Inr img) (\<lambda>img1.
     then_do (if auto_contrast cfg then autocontrast ops img1 else Inr img1) (\<lambda>img2.
     let img3 = (if noise_reduction cfg then or_keep (bilateral_filter ops img2) img2 else img2);
         img4 = (if adaptive_threshold cfg
                 then or_keep (adaptive_threshold_gaussian ops img3) img3 else img3);
         p = py_lower (py_strip preset)
     in
     then_do (preset_branch ops cfg p img4) (\<lambda>img_cv.
     then_do (auto_trim_and_pad ops img_cv 16) (\<lambda>img_cv'.
     then_do (enhance_contrast ops (contrast_boost cfg) img_cv') (\<lambda>img5.
     then_do (enhance_sharpness ops (sharpness_boost cfg) img5) (\<lambda>img6.
     if eink_dither cfg then quantize_dither ops img6 else Inr img6))))))"

definition enhance_image :: "'img image_ops \<Rightarrow> config \<Rightarrow> 'img \<Rightarrow> py_error + 'img" where
  "enhance_image ops cfg img = enhance_image_preset ops cfg img (preset_name cfg)"


text \<open>
  \<^verbatim>\<open>f"{n:05d}"\<close> for a natural number is \<open>zfill 5 n\<close>. \<^verbatim>\<open>int(a / b)\<close> truncates
  the quotient towards zero; the quotient is taken exactly (the program divides in
  floating point, which gives the same integer for image sizes).
\<close>

definition digit_char :: "nat \<Rightarrow> char" where
  "digit_char d = char_of (48 + d)"

function py_str_nat :: "nat \<Rightarrow> string" where
  "py_str_nat n = (if n < 10 then [digit_char n] else py_str_nat (n div 10) @ [digit_char (n mod 10)])"
  by pat_completeness auto
termination
  by (relation "measure id") auto

definition zfill :: "nat \<Rightarrow> nat \<Rightarrow> string" where
  "zfill w n = replicate (w - length (py_str_nat n)) CHR ''0'' @ py_str_nat n"

definition py_trunc_quot :: "int \<Rightarrow> int \<Rightarrow> int" where
  "py_trunc_quot a b = sgn a * sgn b * (\<bar>a\<bar> div \<bar>b\<bar>)"

text \<open>
  \<^verbatim>\<open>
  def process_single_image_seq(self, path, dest, seq_num):
      try:
          img = Image.open(path).convert("RGB")
          if img.width > self.target_width.get():
              h = int(img.height * self.target_width.get() / img.width)
              img = img.resize((self.target_width.get(), h), Image.Resampling.LANCZOS)
          img = self.enhance_image(img)
          out = dest / f"{seq_num:05d}.jpg"
          img.save(out, "JPEG", quality=int(self.jpg_quality.get()), ...)
          return out
      except Exception as e:
          self.log(f"Error procesando {path.name}: {e}")
          return None
  \<close>
  The result \<open>Inr (out, img)\<close> is the return of \<open>out\<close> after \<open>img\<close> was saved there;
  \<open>Inl e\<close> is the exception \<open>e\<close> caught, logged, and \<^verbatim>\<open>None\<close> returned.
  \<open>finish_page\<close> is the rest of the body after the resize: the pipeline, then the
  file name and the save.
\<close>

definition finish_page ::
  "'img image_ops \<Rightarrow> config \<Rightarrow> 'img \<Rightarrow> path \<Rightarrow> nat \<Rightarrow> py_error + (path \<times> 'img)" where
  "finish_page ops cfg img dest seq_num =
     then_do (enhance_image ops cfg img) (\<lambda>img2.
     let out = dest @ ''/'' @ zfill 5 seq_num @ ''.jpg''
     in then_do (save_jpeg ops img2 out (jpg_quality cfg)) (\<lambda>_. Inr (out, img2)))"

definition process_single_image_seq ::
  "'img image_ops \<Rightarrow> config \<Rightarrow> path \<Rightarrow> path \<Rightarrow> nat \<Rightarrow> py_error + (path \<times> 'img)" where
  "process_single_image_seq ops cfg src dest seq_num =
     then_do (open_rgb ops src) (\<lambda>img.
     then_do (if img_width ops img > target_width cfg
              then (if img_width ops img = 0 then Inl ZeroDivisionError
                    else resize_lanczos ops img
                           (target_width cfg,
                            py_trunc_quot (img_height ops img * target_width cfg) (img_width ops img)))
              else Inr img) (\<lambda>img1.
     finish_page ops cfg img1 dest seq_num))"

text \<open>
  To read off which operations a run applies, in which order and with which
  arguments, the operations are instantiated on symbolic images: a symbolic image has
  a width, a height and the list of the operations applied to it so far, and an
  operation succeeds and adds itself to that list; only a resize to a width or a
  height below 1 fails, with the \<^verbatim>\<open>ValueError\<close> that \<^verbatim>\<open>Image.resize\<close> raises
  for such a size. \<open>dims\<close> gives the size of the image stored at a path, \<open>bb\<close> the
  answer of the contour search.
\<close>

datatype stage =
    Resize int int
  | Grayscale
  | Autocontrast
  | Bilateral
  | AdaptiveThreshold
  | Clahe real nat
  | Unsharp real real
  | NlMeans nat
  | NiBlack
  | Crop rect
  | PadWhite nat
  | Contrast real
  | Sharpness real
  | Dither

record simg =
  sw :: int
  sh :: int
  hist :: "stage list"

definition applied :: "stage \<Rightarrow> simg \<Rightarrow> py_error + simg" where
  "applied s img = Inr (img\<lparr>hist := hist img @ [s]\<rparr>)"

definition trace_ops :: "(path \<Rightarrow> int \<times> int) \<Rightarrow> rect option \<Rightarrow> simg image_ops" where
  "trace_ops dims bb =
     \<lparr>open_rgb = (\<lambda>p. Inr \<lparr>sw = fst (dims p), sh = snd (dims p), hist = []\<rparr>),
      img_width = sw,
      img_height = sh,
      resize_lanczos = (\<lambda>img (w, h).
         if w < 1 \<or> h < 1 then Inl ValueError
         else Inr (img\<lparr>sw := w, sh := h, hist := hist img @ [Resize w h]\<rparr>)),
      save_jpeg = (\<lambda>img out q. Inr ()),
      grayscale_rgb = applied Grayscale,
      autocontrast = applied Autocontrast,
      bilateral_filter = applied Bilateral,
      adaptive_threshold_gaussian = applied AdaptiveThreshold,
      clahe = (\<lambda>clip tile. applied (Clahe clip tile)),
      gaussian_unsharp = (\<lambda>radius amount. applied (Unsharp radius amount)),
      fast_nl_means = (\<lambda>strength. applied (NlMeans strength)),
      ni_black_threshold = applied NiBlack,
      content_rect = (\<lambda>img. Inr bb),
      crop = (\<lambda>r. applied (Crop r)),
      pad_white = (\<lambda>n. applied (PadWhite n)),
      enhance_contrast = (\<lambda>f. applied (Contrast f)),
      enhance_sharpness = (\<lambda>f. applied (Sharpness f)),
      quantize_dither = applied Dither\<rparr>"

text \<open>
  The order of the stages as the specification words it: the pre-pass toggles
  (grayscale, autocontrast, smoothing, legacy binarization), one preset branch chosen
  by a case-insensitive prefix match on the identifier (none when nothing matches, and
  none for crop-only), the trim, contrast then sharpness, and dithering last.
\<close>

definition ci_prefix :: "string \<Rightarrow> string \<Rightarrow> bool" where
  "ci_prefix lit ident = py_startswith (py_lower (py_strip ident)) lit"

definition pre_pass :: "config \<Rightarrow> stage list" where
  "pre_pass cfg =
     (if to_grayscale cfg then [Grayscale] else [])
     @ (if auto_contrast cfg then [Autocontrast] else [])
     @ (if noise_reduction cfg then [Bilateral] else [])
     @ (if adaptive_threshold cfg then [AdaptiveThreshold] else [])"

definition preset_stages :: "config \<Rightarrow> string \<Rightarrow> stage list" where
  "preset_stages cfg ident =
     (if ci_prefix ''manga limpio'' ident then [Clahe 2.0 8, Unsharp 1.0 0.6]
      else if ci_prefix ''manga antiguo'' ident then [Clahe 2.6 8, Unsharp 1.0 0.5]
      else if ci_prefix ''escaneo con artefactos'' ident then [NlMeans 6, Unsharp 1.2 0.6]
      else if ci_prefix (''texto peque'' @ [CHR 0xF1] @ ''o'') ident
        then [if has_ximgproc cfg then NiBlack else AdaptiveThreshold]
      else [])"

definition trim_stage :: "rect option \<Rightarrow> stage list" where
  "trim_stage bb = (case bb of None \<Rightarrow> [] | Some r \<Rightarrow> [Crop r, PadWhite 16])"

definition spec_stage_order :: "config \<Rightarrow> string \<Rightarrow> rect option \<Rightarrow> stage list" where
  "spec_stage_order cfg ident bb =
     pre_pass cfg @ preset_stages cfg ident @ trim_stage bb
     @ [Contrast (contrast_boost cfg), Sharpness (sharpness_boost cfg)]
     @ (if eink_dither cfg then [Dither] else [])"

text \<open>The configuration the program starts with (\<^verbatim>\<open>__init__\<close>).\<close>

definition default_config :: config where
  "default_config =
     \<lparr>target_width = 1200, jpg_quality = 84, contrast_boost = 1.15, sharpness_boost = 1.2,
      noise_reduction = True, auto_contrast = True, to_grayscale = False,
      adaptive_threshold = False,
      preset_name = ''Manga limpio (r'' @ [CHR 0xE1] @ ''pido)'',
      eink_dither = False, has_ximgproc = False\<rparr>"

section \<open>Properties of the volume planner\<close>

lemmas [simp del] = py_range.simps

lemma ceil_div_zero: "0 < g \<Longrightarrow> ceil_div 0 g = 0"
  by (simp add: ceil_div_def)

lemma ceil_div_step:
  assumes "0 < g" "0 < m"
  shows "ceil_div m g = Suc (ceil_div (m - g) g)"
proof (cases "m \<le> g")
  case True
  have "g * 1 \<le> m + g - 1" "m + g - 1 < g * Suc 1"
    using assms True by simp_all
  then have "(m + g - 1) div g = 1"
    by (rule div_nat_eqI)
  moreover have "(m - g + g - 1) div g = 0"
    using assms True by simp
  ultimately show ?thesis by (simp add: ceil_div_def)
next
  case False
  define a where "a = m - g + g - 1"
  have e: "m + g - 1 = a + g" using False assms by (simp add: a_def)
  have "(a + g) div g = Suc (a div g)" using assms(1) by (simp add: div_add_self2)
  then have "(m + g - 1) div g = Suc (a div g)" by (simp only: e)
  then show ?thesis by (simp only: ceil_div_def a_def)
qed

lemma py_range_as_map:
  "0 < g \<Longrightarrow> py_range i n g = map (\<lambda>k. i + k * g) [0..<ceil_div (n - i) g]"
proof (induction i n g rule: py_range.induct)
  case (1 i n g)
  show ?case
  proof (cases "i < n")
    case False
    then show ?thesis using 1(2) by (simp add: py_range.simps[of i n g] ceil_div_zero)
  next
    case True
    have g: "g \<noteq> 0" using 1(2) by simp
    have ih: "py_range (i + g) n g = map (\<lambda>k. i + g + k * g) [0..<ceil_div (n - (i + g)) g]"
      using 1(1)[OF g True 1(2)] .
    have c: "ceil_div (n - i) g = Suc (ceil_div (n - (i + g)) g)"
      using ceil_div_step[of g "n - i"] True 1(2) by simp
    have "py_range i n g = i # py_range (i + g) n g"
      using True g by (simp add: py_range.simps[of i n g])
    also have "\<dots> = map (\<lambda>k. i + k * g) [0..<Suc (ceil_div (n - (i + g)) g)]"
      unfolding ih by (simp add: upt_rec[of 0] map_Suc_upt[symmetric] del: upt_Suc)
    finally show ?thesis using c by simp
  qed
qed

lemma ceil_div_bounds:
  assumes "0 < g"
  shows "n \<le> ceil_div n g * g" and "ceil_div n g * g < n + g"
proof -
  have m: "(n + g - 1) mod g < g" using assms by simp
  have d: "(n + g - 1) div g * g + (n + g - 1) mod g = n + g - 1" by simp
  show "n \<le> ceil_div n g * g" unfolding ceil_div_def using m d by linarith
  show "ceil_div n g * g < n + g" unfolding ceil_div_def using d assms by linarith
qed

lemma ceil_div_ceiling:
  assumes "0 < g"
  shows "int (ceil_div n g) = \<lceil>real n / real g\<rceil>"
proof -
  have g: "0 < real g" using assms by simp
  have "real n \<le> real (ceil_div n g * g)"
    using ceil_div_bounds(1)[OF assms, of n] by (simp only: of_nat_le_iff)
  then have up: "real n / real g \<le> of_int (int (ceil_div n g))"
    using g by (simp add: divide_le_eq)
  have "real (ceil_div n g * g) < real (n + g)"
    using ceil_div_bounds(2)[OF assms, of n] by (simp only: of_nat_less_iff)
  then have "real (ceil_div n g) * real g - real g < real n" by simp
  then have "(real (ceil_div n g) - 1) * real g < real n" by (simp add: algebra_simps)
  then have lo: "of_int (int (ceil_div n g)) - 1 < real n / real g"
    using g by (simp add: less_divide_eq)
  show ?thesis using ceiling_unique[OF lo up] by simp
qed

lemma concat_py_range_slices:
  "0 < g \<Longrightarrow> concat (map (\<lambda>i. py_slice xs i (i + g)) (py_range i (length xs) g)) = drop i xs"
proof (induction i "length xs" g rule: py_range.induct)
  case (1 i g)
  show ?case
  proof (cases "i < length xs")
    case False
    then show ?thesis using 1(2) by (simp add: py_range.simps[of i "length xs" g])
  next
    case True
    have g: "g \<noteq> 0" using 1(2) by simp
    have ih: "concat (map (\<lambda>i. py_slice xs i (i + g)) (py_range (i + g) (length xs) g)) = drop (i + g) xs"
      using 1(1)[OF g True 1(2)] .
    have r: "py_range i (length xs) g = i # py_range (i + g) (length xs) g"
      using True g by (simp add: py_range.simps[of i "length xs" g])
    have "take g (drop i xs) @ drop g (drop i xs) = drop i xs" by (rule append_take_drop_id)
    moreover have "drop g (drop i xs) = drop (i + g) xs" by (simp add: add.commute)
    ultimately have "py_slice xs i (i + g) @ drop (i + g) xs = drop i xs"
      by (simp add: py_slice_def)
    then show ?thesis unfolding r using ih by simp
  qed
qed

lemma group_length:
  assumes "0 < g" "k < ceil_div n g"
  shows "0 < min g (n - k * g)" and "Suc k < ceil_div n g \<Longrightarrow> min g (n - k * g) = g"
proof -
  have "Suc k * g \<le> ceil_div n g * g" using assms(2) by (simp only: Suc_leI mult_le_mono1)
  then have "k * g + g < n + g" using ceil_div_bounds(2)[OF assms(1), of n] by simp
  then show "0 < min g (n - k * g)" using assms(1) by simp
next
  assume s: "Suc k < ceil_div n g"
  have "Suc (Suc k) * g \<le> ceil_div n g * g" using s by (simp only: Suc_leI mult_le_mono1)
  then have "k * g + g + g < n + g" using ceil_div_bounds(2)[OF assms(1), of n] by simp
  then show "min g (n - k * g) = g" by simp
qed

lemma build_plan_length:
  assumes "1 \<le> G"
  shows "length (build_plan chs G) = ceil_div (length (filter enabled chs)) (nat G)"
proof -
  have g: "nat (max 1 G) = nat G" "0 < nat G" using assms by simp_all
  show ?thesis
    by (simp add: build_plan_def Let_def g py_range_as_map[OF g(2)])
qed

lemma build_plan_concat:
  "concat (build_plan chs G) = filter enabled chs"
proof -
  have "0 < nat (max 1 G)" by simp
  from concat_py_range_slices[OF this, of "filter enabled chs" 0]
  show ?thesis by (simp add: build_plan_def Let_def)
qed

lemma build_plan_nth:
  assumes "1 \<le> G" "k < length (build_plan chs G)"
  shows "build_plan chs G ! k = take (nat G) (drop (k * nat G) (filter enabled chs))"
proof -
  have g: "nat (max 1 G) = nat G" "0 < nat G" using assms(1) by simp_all
  have k: "k < ceil_div (length (filter enabled chs)) (nat G)"
    using assms(2) build_plan_length[OF assms(1), of chs] by simp
  show ?thesis using k
    by (simp add: build_plan_def Let_def g py_range_as_map[OF g(2)] py_slice_def)
qed

lemma plan_view_vnums:
  "map vnum (rows (update_plan_view chs G S)) =
     map (\<lambda>k. max 1 S + int k) [0..<length (build_plan chs G)]"
proof -
  let ?plan = "build_plan chs G"
  have z: "map fst (zip [0..<length ?plan] ?plan) = [0..<length ?plan]"
    by (rule map_fst_zip) simp
  have a: "map vnum (rows (update_plan_view chs G S)) =
        map (\<lambda>x. max 1 S + int (fst x)) (zip [0..<length ?plan] ?plan)"
    by (simp add: update_plan_view_def Let_def enumerate_eq_zip split_def comp_def)
  have b: "map (\<lambda>x. max 1 S + int (fst x)) (zip [0..<length ?plan] ?plan) =
        map (\<lambda>k. max 1 S + int k) (map fst (zip [0..<length ?plan] ?plan))"
    by (simp only: map_map comp_def)
  show ?thesis by (simp only: a b z)
qed

lemma plan_view_rows:
  assumes "k < length (build_plan chs G)"
  shows "rows (update_plan_view chs G S) ! k =
     \<lparr>vnum = max 1 S + int k,
      vol_pages = sum_list (map pages (build_plan chs G ! k)),
      vol_chapters = build_plan chs G ! k\<rparr>"
proof -
  have "enumerate 0 (build_plan chs G) ! k = (k, build_plan chs G ! k)"
    using assms by (simp add: nth_enumerate_eq)
  then show ?thesis using assms by (simp add: update_plan_view_def Let_def)
qed

lemma plan_view_length:
  "length (rows (update_plan_view chs G S)) = length (build_plan chs G)"
  by (simp add: update_plan_view_def Let_def)

text \<open>
  Claim C1. For a group size \<open>G \<ge> 1\<close> and a start volume \<open>S \<ge> 1\<close>, with \<open>N\<close> the number
  of enabled chapters: the plan has \<open>\<lceil>N / G\<rceil>\<close> volumes; volume \<open>k\<close> is the \<open>k\<close>-th
  consecutive block of \<open>G\<close> enabled chapters, in the order of the chapter list; no
  volume is empty or larger than \<open>G\<close>, and only the last one may be smaller than \<open>G\<close>;
  the volumes laid end to end are exactly the enabled chapters, so each enabled chapter
  is in one volume and in one only; the plan view has one row for each volume, in plan
  order, and row \<open>k\<close> shows the number \<open>S + k\<close> with the chapters of volume \<open>k\<close> and
  the sum of their pages, so the numbers are \<open>S, S + 1, \<dots>\<close> in partition order; the
  total is the number of pages of the enabled chapters; and with no enabled chapter the
  plan is empty, with zero volumes and zero pages.
\<close>

theorem volume_planner_partition:
  assumes "1 \<le> G" and "1 \<le> S"
  shows "int (length (build_plan chs G)) = \<lceil>real (length (filter enabled chs)) / real_of_int G\<rceil>
       \<and> concat (build_plan chs G) = filter enabled chs
       \<and> (\<forall>k < length (build_plan chs G).
             build_plan chs G ! k = take (nat G) (drop (k * nat G) (filter enabled chs))
           \<and> 0 < length (build_plan chs G ! k)
           \<and> int (length (build_plan chs G ! k)) \<le> G
           \<and> (Suc k < length (build_plan chs G) \<longrightarrow> int (length (build_plan chs G ! k)) = G))
       \<and> map vnum (rows (update_plan_view chs G S)) =
           map (\<lambda>k. S + int k) [0..<length (build_plan chs G)]
       \<and> total_vols (update_plan_view chs G S) = length (build_plan chs G)
       \<and> length (rows (update_plan_view chs G S)) = length (build_plan chs G)
       \<and> (\<forall>k < length (build_plan chs G).
             rows (update_plan_view chs G S) ! k =
               \<lparr>vnum = S + int k,
                vol_pages = sum_list (map pages (build_plan chs G ! k)),
                vol_chapters = build_plan chs G ! k\<rparr>)
       \<and> total_pages (update_plan_view chs G S) = sum_list (map pages (filter enabled chs))
       \<and> (filter enabled chs = [] \<longrightarrow>
             build_plan chs G = [] \<and> rows (update_plan_view chs G S) = []
           \<and> total_vols (update_plan_view chs G S) = 0
           \<and> total_pages (update_plan_view chs G S) = 0)"
proof -
  let ?en = "filter enabled chs"
  let ?plan = "build_plan chs G"
  have g: "0 < nat G" using assms(1) by simp
  have len: "length ?plan = ceil_div (length ?en) (nat G)"
    using build_plan_length[OF assms(1)] .
  have c1: "int (length ?plan) = \<lceil>real (length ?en) / real_of_int G\<rceil>"
  proof -
    have "real (nat G) = real_of_int G" using assms(1) by simp
    then show ?thesis using ceil_div_ceiling[OF g, of "length ?en"] len by simp
  qed
  have c3: "\<forall>k < length ?plan.
             ?plan ! k = take (nat G) (drop (k * nat G) ?en)
           \<and> 0 < length (?plan ! k)
           \<and> int (length (?plan ! k)) \<le> G
           \<and> (Suc k < length ?plan \<longrightarrow> int (length (?plan ! k)) = G)"
  proof (intro allI impI)
    fix k assume k: "k < length ?plan"
    then have kc: "k < ceil_div (length ?en) (nat G)" using len by simp
    have n: "?plan ! k = take (nat G) (drop (k * nat G) ?en)"
      using build_plan_nth[OF assms(1) k] .
    have l: "length (?plan ! k) = min (nat G) (length ?en - k * nat G)"
      unfolding n by (simp add: min.commute)
    have p: "0 < length (?plan ! k)"
      unfolding l using group_length(1)[OF g kc] .
    have u: "int (length (?plan ! k)) \<le> G"
      unfolding l using assms(1) by simp
    have f: "Suc k < length ?plan \<longrightarrow> int (length (?plan ! k)) = G"
    proof
      assume "Suc k < length ?plan"
      then have "Suc k < ceil_div (length ?en) (nat G)" using len by simp
      from group_length(2)[OF g kc this] show "int (length (?plan ! k)) = G"
        unfolding l using assms(1) by simp
    qed
    show "?plan ! k = take (nat G) (drop (k * nat G) ?en)
           \<and> 0 < length (?plan ! k)
           \<and> int (length (?plan ! k)) \<le> G
           \<and> (Suc k < length ?plan \<longrightarrow> int (length (?plan ! k)) = G)"
      using n p u f by blast
  qed
  have c4: "map vnum (rows (update_plan_view chs G S)) = map (\<lambda>k. S + int k) [0..<length ?plan]"
  proof -
    have "max 1 S = S" using assms(2) by simp
    then show ?thesis using plan_view_vnums[of chs G S] by simp
  qed
  have c5: "total_vols (update_plan_view chs G S) = length ?plan"
    by (simp add: update_plan_view_def Let_def)
  have c6: "?en = [] \<longrightarrow> ?plan = [] \<and> rows (update_plan_view chs G S) = []
           \<and> total_vols (update_plan_view chs G S) = 0
           \<and> total_pages (update_plan_view chs G S) = 0"
  proof
    assume e: "?en = []"
    have "length ?plan = 0" using len e g by (simp add: ceil_div_zero)
    then have "?plan = []" by simp
    then show "?plan = [] \<and> rows (update_plan_view chs G S) = []
           \<and> total_vols (update_plan_view chs G S) = 0
           \<and> total_pages (update_plan_view chs G S) = 0"
      by (simp add: update_plan_view_def Let_def enumerate_eq_zip)
  qed
  have c7: "length (rows (update_plan_view chs G S)) = length ?plan"
    by (rule plan_view_length)
  have c8: "\<forall>k < length ?plan.
             rows (update_plan_view chs G S) ! k =
               \<lparr>vnum = S + int k,
                vol_pages = sum_list (map pages (?plan ! k)),
                vol_chapters = ?plan ! k\<rparr>"
  proof (intro allI impI)
    fix k assume "k < length ?plan"
    from plan_view_rows[OF this, of S] assms(2)
    show "rows (update_plan_view chs G S) ! k =
               \<lparr>vnum = S + int k,
                vol_pages = sum_list (map pages (?plan ! k)),
                vol_chapters = ?plan ! k\<rparr>"
      by simp
  qed
  have c9: "total_pages (update_plan_view chs G S) = sum_list (map pages ?en)"
    by (simp add: update_plan_view_def Let_def build_plan_concat)
  show ?thesis using c1 build_plan_concat[of chs G] c3 c4 c5 c6 c7 c8 c9 by blast
qed

lemma demo_plan:
  "build_plan demo_chapters 2 = [[demo_chapters ! 0, demo_chapters ! 2], [demo_chapters ! 3]]"
  by (simp add: build_plan_def demo_chapters_def py_range.simps py_slice_def Let_def)

theorem volume_planner_partition_witness:
  "(1::int) \<le> 2 \<and> (1::int) \<le> 5
   \<and> length (build_plan demo_chapters 2) = 2
   \<and> \<lceil>real (length (filter enabled demo_chapters)) / real_of_int 2\<rceil> = 2
   \<and> concat (build_plan demo_chapters 2) = [demo_chapters ! 0, demo_chapters ! 2, demo_chapters ! 3]
   \<and> map vnum (rows (update_plan_view demo_chapters 2 5)) = [5, 6]
   \<and> map (\<lambda>r. (vnum r, map name (vol_chapters r), vol_pages r))
        (rows (update_plan_view demo_chapters 2 5)) =
      [(5, [''Chapter 1'', ''Chapter 10''], 5), (6, [''Chapter 11''], 1)]
   \<and> total_pages (update_plan_view demo_chapters 2 5) = 6"
proof -
  note t = volume_planner_partition[of 2 5 demo_chapters]
  have l: "length (build_plan demo_chapters 2) = 2" by (simp add: demo_plan)
  have rs: "map (\<lambda>r. (vnum r, map name (vol_chapters r), vol_pages r))
        (rows (update_plan_view demo_chapters 2 5)) =
      [(5, [''Chapter 1'', ''Chapter 10''], 5), (6, [''Chapter 11''], 1)]"
    unfolding update_plan_view_def Let_def demo_plan
    by (simp add: demo_chapters_def pages_def)
  have v: "map vnum (rows (update_plan_view demo_chapters 2 5)) = [5, 6]"
    by (simp add: update_plan_view_def Let_def demo_plan)
  have tp: "total_pages (update_plan_view demo_chapters 2 5) = 6"
    using t by (simp add: demo_chapters_def pages_def)
  have c: "concat (build_plan demo_chapters 2) = [demo_chapters ! 0, demo_chapters ! 2, demo_chapters ! 3]"
    by (simp add: demo_plan)
  have e: "\<lceil>real (length (filter enabled demo_chapters)) / real_of_int 2\<rceil> = 2"
    using t l by simp
  show ?thesis using l e c v rs tp by simp
qed

section \<open>Properties of the sort keys\<close>

lemma sorted_keys_split:
  fixes f :: "'a \<Rightarrow> sort_key"
  assumes "sorted (map f ys)"
  shows "ys = filter (\<lambda>x. is_num_key (f x)) ys @ filter (\<lambda>x. \<not> is_num_key (f x)) ys"
  using assms
proof (induction ys)
  case Nil
  then show ?case by simp
next
  case (Cons y ys)
  then have ih: "ys = filter (\<lambda>x. is_num_key (f x)) ys @ filter (\<lambda>x. \<not> is_num_key (f x)) ys"
    by simp
  show ?case
  proof (cases "is_num_key (f y)")
    case True
    then show ?thesis using ih by simp
  next
    case False
    then obtain s where s: "f y = NameKey s" by (cases "f y") (simp_all add: is_num_key_def)
    have le: "\<forall>x \<in> set ys. NameKey s \<le> f x" using Cons.prems s by simp
    have "\<forall>x \<in> set ys. \<not> is_num_key (f x)"
    proof
      fix x assume "x \<in> set ys"
      then have "NameKey s \<le> f x" using le by blast
      then show "\<not> is_num_key (f x)" by (cases "f x") (simp_all add: is_num_key_def)
    qed
    then have "filter (\<lambda>x. is_num_key (f x)) ys = []" "filter (\<lambda>x. \<not> is_num_key (f x)) ys = ys"
      by (simp_all add: filter_empty_conv)
    then show ?thesis using False by simp
  qed
qed


lemma regex_key_cases:
  "regex_key rgx nm = NameKey (py_lower nm) \<or> (\<exists>n. regex_key rgx nm = NumKey n)"
  by (simp add: regex_key_def split: option.splits)

lemma regex_key_fallback:
  "\<not> is_num_key (regex_key rgx nm) \<Longrightarrow> regex_key rgx nm = NameKey (py_lower nm)"
  using regex_key_cases[of rgx nm] by (auto simp: is_num_key_def)

lemma sorted_map_transfer:
  assumes "sorted (map f xs)"
    and "\<And>x y. x \<in> set xs \<Longrightarrow> y \<in> set xs \<Longrightarrow> f x \<le> f y \<Longrightarrow> g x \<le> g y"
  shows "sorted (map g xs)"
proof -
  have "sorted_wrt (\<lambda>x y. f x \<le> f y) xs" using assms(1) by (simp add: sorted_map)
  then have "sorted_wrt (\<lambda>x y. g x \<le> g y) xs"
    by (rule sorted_wrt_mono_rel[rotated]) (use assms(2) in blast)
  then show ?thesis by (simp add: sorted_map)
qed

lemma regex_key_sorted_natural:
  assumes "sorted (map (regex_key rgx) ys)"
  shows "naturally_ordered (regex_key rgx) ys"
proof -
  let ?k = "regex_key rgx"
  let ?nums = "filter (\<lambda>x. is_num_key (?k x)) ys"
  let ?fbs = "filter (\<lambda>x. \<not> is_num_key (?k x)) ys"
  have split: "ys = ?nums @ ?fbs" using sorted_keys_split[OF assms] .
  have sn: "sorted (map ?k ?nums)" using assms by (rule sorted_filter)
  have sf: "sorted (map ?k ?fbs)" using assms by (rule sorted_filter)
  have n: "sorted (map (\<lambda>x. key_num (?k x)) ?nums)"
  proof (rule sorted_map_transfer[OF sn])
    fix x y assume "x \<in> set ?nums" "y \<in> set ?nums" and le: "?k x \<le> ?k y"
    then have "is_num_key (?k x)" "is_num_key (?k y)" by simp_all
    then obtain a b where ab: "?k x = NumKey a" "?k y = NumKey b"
      by (cases "?k x"; cases "?k y"; simp add: is_num_key_def)
    show "key_num (?k x) \<le> key_num (?k y)"
      using le unfolding ab by (simp add: key_num_def)
  qed
  have fb: "?k x = NameKey (py_lower x)" if "x \<in> set ?fbs" for x
  proof -
    from that have "\<not> is_num_key (?k x)" by simp
    then show ?thesis by (rule regex_key_fallback)
  qed
  have f: "sorted (map py_lower ?fbs)"
  proof (rule sorted_map_transfer[OF sf])
    fix x y assume x: "x \<in> set ?fbs" and y: "y \<in> set ?fbs" and le: "?k x \<le> ?k y"
    show "py_lower x \<le> py_lower y"
      using le unfolding fb[OF x] fb[OF y] by simp
  qed
  have l: "list_all (\<lambda>x. ?k x = NameKey (py_lower x)) ?fbs"
    unfolding list_all_iff using fb by blast
  show ?thesis unfolding naturally_ordered_def using split n f l by blast
qed

lemma sort_by_regex_key:
  "naturally_ordered (regex_key rgx) (sort_key (regex_key rgx) xs)
   \<and> mset (sort_key (regex_key rgx) xs) = mset xs"
  using regex_key_sorted_natural[of rgx "sort_key (regex_key rgx) xs"] by simp


lemma regex_key_numeric:
  "rgx = Some search \<Longrightarrow> search nm = Some (Some cap) \<Longrightarrow> py_int cap = Some n
   \<Longrightarrow> regex_key rgx nm = NumKey n"
  by (simp add: regex_key_def)

lemma regex_key_otherwise:
  assumes "\<not> (\<exists>search cap n. rgx = Some search \<and> search nm = Some (Some cap) \<and> py_int cap = Some n)"
  shows "regex_key rgx nm = NameKey (py_lower nm)"
  using assms by (auto simp: regex_key_def split: option.splits)

lemma inmanga_keys:
  "sort_chapter_key PROFILE_INMANGA ''Chapter 2'' = NumKey 2"
  "sort_chapter_key PROFILE_INMANGA ''Chapter 10'' = NumKey 10"
  "sort_chapter_key PROFILE_INMANGA ''Chapter abc'' = NameKey ''chapter abc''"
  by code_simp+

lemma inmanga_sorted_example:
  "sort_key (sort_chapter_key PROFILE_INMANGA) [''Chapter 2'', ''Chapter 10'', ''Chapter abc'']
     = [''Chapter 2'', ''Chapter 10'', ''Chapter abc'']"
  "sort_key (sort_chapter_key PROFILE_INMANGA) [''Chapter abc'', ''Chapter 10'', ''Chapter 2'']
     = [''Chapter 2'', ''Chapter 10'', ''Chapter abc'']"
  by (simp_all add: inmanga_keys)

text \<open>
  Claim C2. For every profile and name: the chapter key is \<open>(0, n)\<close> exactly when the
  chapter pattern matches, captures a text and that text parses as the integer \<open>n\<close>;
  in every other case (no pattern, no match, no captured text, a capture that is not a
  number) it is \<open>(1, lower-cased name)\<close>. The image key is the same over the image
  pattern. Sorting by either key gives a permutation of the input in natural order:
  numeric entries first and ascending by value, fallback entries after them in the
  lexicographic order of their lower-cased names. Under the INMANGA profile, whose
  chapter pattern matches \<open>Chapter <int>\<close>, the names Chapter 2, Chapter 10 and Chapter
  abc sort into exactly that order, from that order and from the reverse one.
\<close>

theorem natural_sort_keys:
  "(\<forall>search cap n. chapter_dir_regex prof = Some search \<longrightarrow> search nm = Some (Some cap)
        \<longrightarrow> py_int cap = Some n \<longrightarrow> sort_chapter_key prof nm = NumKey n)
   \<and> (\<not> (\<exists>search cap n. chapter_dir_regex prof = Some search \<and> search nm = Some (Some cap)
            \<and> py_int cap = Some n)
        \<longrightarrow> sort_chapter_key prof nm = NameKey (py_lower nm))
   \<and> (\<forall>search cap n. image_file_regex prof = Some search \<longrightarrow> search nm = Some (Some cap)
        \<longrightarrow> py_int cap = Some n \<longrightarrow> sort_image_key prof nm = NumKey n)
   \<and> (\<not> (\<exists>search cap n. image_file_regex prof = Some search \<and> search nm = Some (Some cap)
            \<and> py_int cap = Some n)
        \<longrightarrow> sort_image_key prof nm = NameKey (py_lower nm))
   \<and> naturally_ordered (sort_chapter_key prof) (sort_key (sort_chapter_key prof) xs)
   \<and> mset (sort_key (sort_chapter_key prof) xs) = mset xs
   \<and> naturally_ordered (sort_image_key prof) (sort_key (sort_image_key prof) xs)
   \<and> mset (sort_key (sort_image_key prof) xs) = mset xs
   \<and> sort_key (sort_chapter_key PROFILE_INMANGA) [''Chapter 2'', ''Chapter 10'', ''Chapter abc'']
        = [''Chapter 2'', ''Chapter 10'', ''Chapter abc'']
   \<and> sort_key (sort_chapter_key PROFILE_INMANGA) [''Chapter abc'', ''Chapter 10'', ''Chapter 2'']
        = [''Chapter 2'', ''Chapter 10'', ''Chapter abc'']"
proof -
  have ck: "sort_chapter_key prof = regex_key (chapter_dir_regex prof)"
    and ik: "sort_image_key prof = regex_key (image_file_regex prof)"
    by (simp_all add: fun_eq_iff sort_chapter_key_def sort_image_key_def)
  have a1: "\<forall>search cap n. chapter_dir_regex prof = Some search \<longrightarrow> search nm = Some (Some cap)
        \<longrightarrow> py_int cap = Some n \<longrightarrow> sort_chapter_key prof nm = NumKey n"
    unfolding ck using regex_key_numeric by blast
  have a2: "\<not> (\<exists>search cap n. chapter_dir_regex prof = Some search \<and> search nm = Some (Some cap)
            \<and> py_int cap = Some n)
        \<longrightarrow> sort_chapter_key prof nm = NameKey (py_lower nm)"
    unfolding ck using regex_key_otherwise by blast
  have b1: "\<forall>search cap n. image_file_regex prof = Some search \<longrightarrow> search nm = Some (Some cap)
        \<longrightarrow> py_int cap = Some n \<longrightarrow> sort_image_key prof nm = NumKey n"
    unfolding ik using regex_key_numeric by blast
  have b2: "\<not> (\<exists>search cap n. image_file_regex prof = Some search \<and> search nm = Some (Some cap)
            \<and> py_int cap = Some n)
        \<longrightarrow> sort_image_key prof nm = NameKey (py_lower nm)"
    unfolding ik using regex_key_otherwise by blast
  have c: "naturally_ordered (sort_chapter_key prof) (sort_key (sort_chapter_key prof) xs)
        \<and> mset (sort_key (sort_chapter_key prof) xs) = mset xs"
    unfolding ck by (rule sort_by_regex_key)
  have d: "naturally_ordered (sort_image_key prof) (sort_key (sort_image_key prof) xs)
        \<and> mset (sort_key (sort_image_key prof) xs) = mset xs"
    unfolding ik by (rule sort_by_regex_key)
  show ?thesis using a1 a2 b1 b2 c d inmanga_sorted_example by blast
qed

theorem natural_sort_keys_witness:
  "chapter_dir_regex PROFILE_INMANGA \<noteq> None
   \<and> sort_chapter_key PROFILE_INMANGA ''Chapter 10'' = NumKey 10
   \<and> naturally_ordered (sort_chapter_key PROFILE_INMANGA)
        (sort_key (sort_chapter_key PROFILE_INMANGA) [''Chapter abc'', ''Chapter 10'', ''Chapter 2''])
   \<and> sort_key (sort_chapter_key PROFILE_INMANGA) [''Chapter abc'', ''Chapter 10'', ''Chapter 2'']
        = [''Chapter 2'', ''Chapter 10'', ''Chapter abc'']"
proof -
  note t = natural_sort_keys[of PROFILE_INMANGA "''Chapter 10''" "[''Chapter abc'', ''Chapter 10'', ''Chapter 2'']"]
  have p: "chapter_dir_regex PROFILE_INMANGA \<noteq> None" by (simp add: PROFILE_INMANGA_def)
  have n: "naturally_ordered (sort_chapter_key PROFILE_INMANGA)
        (sort_key (sort_chapter_key PROFILE_INMANGA) [''Chapter abc'', ''Chapter 10'', ''Chapter 2''])"
    using t by blast
  have s: "sort_key (sort_chapter_key PROFILE_INMANGA) [''Chapter abc'', ''Chapter 10'', ''Chapter 2'']
        = [''Chapter 2'', ''Chapter 10'', ''Chapter abc'']"
    using t by blast
  show ?thesis using p n s inmanga_keys(2) by blast
qed

section \<open>Properties of the scanner\<close>

lemma filter_raising_ok:
  "list_all (\<lambda>x. \<not> isl (p x)) xs \<Longrightarrow> filter_raising p xs = Inr (filter (\<lambda>x. p x = Inr True) xs)"
proof (induction xs)
  case Nil
  then show ?case by simp
next
  case (Cons x xs)
  then obtain b where b: "p x = Inr b" by (cases "p x") auto
  show ?case using Cons b by (cases b) simp_all
qed

lemma filter_raising_fails:
  "\<not> list_all (\<lambda>x. \<not> isl (p x)) xs \<Longrightarrow> isl (filter_raising p xs)"
proof (induction xs)
  case Nil
  then show ?case by simp
next
  case (Cons x xs)
  show ?case
  proof (cases "p x")
    case (Inl e)
    then show ?thesis by simp
  next
    case (Inr b)
    then have "\<not> list_all (\<lambda>x. \<not> isl (p x)) xs" using Cons.prems by simp
    then have "isl (filter_raising p xs)" by (rule Cons.IH)
    then show ?thesis using Inr by (cases "filter_raising p xs") simp_all
  qed
qed

lemma is_image_file_isl: "isl (is_image_file f) = isl (is_file f)"
  by (cases "is_file f") (simp_all add: is_image_file_def)

lemma is_image_file_True:
  "(is_image_file f = Inr True) =
     (is_file f = Inr True \<and> py_lower (path_suffix (fpath f)) \<in> formats)"
  by (cases "is_file f") (auto simp: is_image_file_def)

lemma collect_images_ok:
  assumes "folder_ok d"
  shows "collect_images profile d = Inr (image_files profile d)"
proof -
  from assms obtain entries where e: "iterdir d = Inr entries"
    by (cases "iterdir d") (simp_all add: folder_ok_def readable_def)
  then have l: "listed d = entries" by (simp add: listed_def)
  have "list_all (\<lambda>f. \<not> isl (is_image_file f)) entries"
    using assms l by (simp add: folder_ok_def is_image_file_isl)
  from filter_raising_ok[OF this] show ?thesis
    using e l by (simp add: collect_images_def image_files_def is_image_file_True)
qed

lemma collect_images_fails:
  assumes "\<not> folder_ok d"
  shows "isl (collect_images profile d)"
proof (cases "iterdir d")
  case (Inl e)
  then show ?thesis by (simp add: collect_images_def)
next
  case (Inr entries)
  then have "readable d" "listed d = entries" by (simp_all add: readable_def listed_def)
  then have "\<not> list_all (\<lambda>f. \<not> isl (is_image_file f)) entries"
    using assms by (simp add: folder_ok_def is_image_file_isl)
  then have "isl (filter_raising is_image_file entries)" by (rule filter_raising_fails)
  then show ?thesis using Inr
    by (cases "filter_raising is_image_file entries") (simp_all add: collect_images_def)
qed

lemma scan_subdirs_result:
  "chapters (scan_subdirs profile ds chs) = chs @ chapters_of profile (takeWhile folder_ok ds)
   \<and> (raised (scan_subdirs profile ds chs) = None) = list_all folder_ok ds"
proof (induction ds arbitrary: chs)
  case Nil
  then show ?case by (simp add: chapters_of_def)
next
  case (Cons d ds)
  show ?case
  proof (cases "folder_ok d")
    case True
    then show ?thesis
      using Cons.IH collect_images_ok[OF True, of profile] by (simp add: chapters_of_def)
  next
    case False
    from collect_images_fails[OF False, of profile] obtain e where "collect_images profile d = Inl e"
      by (cases "collect_images profile d") simp_all
    then show ?thesis using False by (simp add: chapters_of_def)
  qed
qed

lemma image_files_set:
  "set (image_files profile d) =
     {f \<in> set (listed d). is_file f = Inr True \<and> py_lower (path_suffix (fpath f)) \<in> formats}"
  by (simp add: image_files_def)

lemma image_files_sorted:
  "sorted (map (\<lambda>f. sort_image_key profile (path_name (fpath f))) (image_files profile d))"
  by (simp add: image_files_def)

lemma chapters_of_member:
  assumes "c \<in> set (chapters_of prof ds)"
  shows "enabled c \<and> images c \<noteq> []
       \<and> (\<exists>d \<in> set ds. c = make_chapter d (image_files prof d))"
proof -
  from assms obtain d where d: "d \<in> set ds" "image_files prof d \<noteq> []"
    "c = make_chapter d (image_files prof d)"
    by (auto simp: chapters_of_def)
  have "enabled c" "images c \<noteq> []" using d(2,3) by (simp_all add: make_chapter_def)
  then show ?thesis using d(1,3) by blast
qed

lemma scan_images_subfolders:
  assumes "PROFILES k = Some prof" and "expects_subfolders prof"
  shows "scan_images (Some folder) k True =
     (case iterdir folder of
        Inl e \<Rightarrow> \<lparr>chapters = [], raised = Some e\<rparr>
      | Inr entries \<Rightarrow>
          (case filter_raising is_dir entries of
             Inl e \<Rightarrow> \<lparr>chapters = [], raised = Some e\<rparr>
           | Inr subdirs \<Rightarrow>
               scan_subdirs prof
                 (sort_key (\<lambda>d. sort_chapter_key prof (path_name (fpath d))) subdirs) []))"
  using assms by (simp add: scan_images_def)

lemma scan_images_flat:
  assumes "PROFILES k = Some prof" and "\<not> (expects_subfolders prof \<and> flag)"
  shows "scan_images (Some folder) k flag =
     (case collect_images prof folder of
        Inl e \<Rightarrow> \<lparr>chapters = [], raised = Some e\<rparr>
      | Inr files \<Rightarrow>
          \<lparr>chapters = (if files \<noteq> [] then [make_chapter folder files] else []),
           raised = None\<rparr>)"
proof -
  have c: "(expects_subfolders prof \<and> flag) = False" using assms(2) by simp
  show ?thesis
    unfolding scan_images_def using assms(1)
    by (simp only: c option.case if_False)
qed

lemma subfolder_scan:
  assumes "PROFILES k = Some prof" and "expects_subfolders prof"
    and "iterdir folder = Inr entries" and "filter_raising is_dir entries = Inr subdirs"
  shows "subdirs = subfolders folder"
    and "chapters (scan_images (Some folder) k True) =
           chapters_of prof (takeWhile folder_ok
             (sort_key (\<lambda>d. sort_chapter_key prof (path_name (fpath d))) (subfolders folder)))"
    and "(raised (scan_images (Some folder) k True) = None) = list_all folder_ok (subfolders folder)"
proof -
  have l: "listed folder = entries" using assms(3) by (simp add: listed_def)
  have "list_all (\<lambda>d. \<not> isl (is_dir d)) entries"
    using filter_raising_fails[of is_dir entries] assms(4) by auto
  from filter_raising_ok[OF this] show s: "subdirs = subfolders folder"
    using assms(4) l by (simp add: subfolders_def)
  let ?subs = "sort_key (\<lambda>d. sort_chapter_key prof (path_name (fpath d))) (subfolders folder)"
  have r: "scan_images (Some folder) k True = scan_subdirs prof ?subs []"
    using scan_images_subfolders[OF assms(1,2), of folder] assms(3,4) s by simp
  show "chapters (scan_images (Some folder) k True) = chapters_of prof (takeWhile folder_ok ?subs)"
    unfolding r using scan_subdirs_result[of prof ?subs "[]"] by simp
  have "list_all folder_ok ?subs = list_all folder_ok (subfolders folder)"
    by (simp add: list_all_iff)
  then show "(raised (scan_images (Some folder) k True) = None) = list_all folder_ok (subfolders folder)"
    unfolding r using scan_subdirs_result[of prof ?subs "[]"] by simp
qed

lemma subfolder_scan_early:
  assumes "PROFILES k = Some prof" and "expects_subfolders prof"
    and "isl (iterdir folder) \<or> isl (filter_raising is_dir (listed folder))"
  shows "chapters (scan_images (Some folder) k True) = []"
    and "raised (scan_images (Some folder) k True) \<noteq> None"
proof -
  have "chapters (scan_images (Some folder) k True) = []
        \<and> raised (scan_images (Some folder) k True) \<noteq> None"
  proof (cases "iterdir folder")
    case (Inl e)
    then show ?thesis using scan_images_subfolders[OF assms(1,2), of folder] by simp
  next
    case (Inr entries)
    then have "listed folder = entries" by (simp add: listed_def)
    then obtain e where "filter_raising is_dir entries = Inl e"
      using assms(3) Inr by (cases "filter_raising is_dir entries") simp_all
    then show ?thesis using scan_images_subfolders[OF assms(1,2), of folder] Inr by simp
  qed
  then show "chapters (scan_images (Some folder) k True) = []"
    and "raised (scan_images (Some folder) k True) \<noteq> None" by simp_all
qed

text \<open>
  Claim C4. With a profile that expects subfolders and subfolder mode on: every
  chapter of the result, however the scan ends, is enabled, holds at least one image
  and comes from an immediate subdirectory of the selected folder, whose name and path
  it carries and whose image files are its images; the image files of a folder are
  exactly its entries that are regular files with a suffix, lower-cased, among .jpg,
  .jpeg, .png and .webp, they are sorted by the image key, and they are what the
  program collects from the folder; when every call on the file system answers, the
  scan does not raise and the chapters are those of the subdirectories taken in the
  order of the chapter key, a subdirectory without an image file giving no chapter.
\<close>

theorem scan_subfolder_mode:
  assumes "PROFILES k = Some prof" and "expects_subfolders prof"
  shows
  "(\<forall>c \<in> set (chapters (scan_images (Some folder) k True)).
       enabled c \<and> images c \<noteq> []
       \<and> (\<exists>d \<in> set (subfolders folder). folder_ok d
              \<and> c = make_chapter d (image_files prof d)))
   \<and> (\<forall>d. set (image_files prof d) =
              {f \<in> set (listed d). is_file f = Inr True
                  \<and> py_lower (path_suffix (fpath f)) \<in> formats}
          \<and> sorted (map (\<lambda>f. sort_image_key prof (path_name (fpath f))) (image_files prof d))
          \<and> (folder_ok d \<longrightarrow> collect_images prof d = Inr (image_files prof d)))
   \<and> (scan_reads_ok prof True folder \<longrightarrow>
        raised (scan_images (Some folder) k True) = None
        \<and> chapters (scan_images (Some folder) k True) =
            chapters_of prof (sort_key (\<lambda>d. sort_chapter_key prof (path_name (fpath d)))
                               (subfolders folder)))
   \<and> sorted (map (\<lambda>d. sort_chapter_key prof (path_name (fpath d)))
         (sort_key (\<lambda>d. sort_chapter_key prof (path_name (fpath d))) (subfolders folder)))"
proof -
  let ?ck = "\<lambda>d. sort_chapter_key prof (path_name (fpath d))"
  let ?subs = "sort_key ?ck (subfolders folder)"
  let ?res = "scan_images (Some folder) k True"
  have a: "\<forall>c \<in> set (chapters ?res).
       enabled c \<and> images c \<noteq> []
       \<and> (\<exists>d \<in> set (subfolders folder). folder_ok d
              \<and> c = make_chapter d (image_files prof d))"
  proof
    fix c assume c: "c \<in> set (chapters ?res)"
    show "enabled c \<and> images c \<noteq> []
       \<and> (\<exists>d \<in> set (subfolders folder). folder_ok d
              \<and> c = make_chapter d (image_files prof d))"
    proof (cases "isl (iterdir folder) \<or> isl (filter_raising is_dir (listed folder))")
      case True
      from subfolder_scan_early(1)[OF assms True] c show ?thesis by simp
    next
      case False
      then obtain entries where en: "iterdir folder = Inr entries"
        by (cases "iterdir folder") simp_all
      then have l: "listed folder = entries" by (simp add: listed_def)
      then obtain subdirs where sd: "filter_raising is_dir entries = Inr subdirs"
        using False by (cases "filter_raising is_dir entries") simp_all
      have "c \<in> set (chapters_of prof (takeWhile folder_ok ?subs))"
        using c subfolder_scan(2)[OF assms en sd] by simp
      from chapters_of_member[OF this]
      obtain d where d: "enabled c" "images c \<noteq> []" "d \<in> set (takeWhile folder_ok ?subs)"
        "c = make_chapter d (image_files prof d)" by blast
      have "folder_ok d" using d(3) by (rule set_takeWhileD[THEN conjunct2])
      moreover have "d \<in> set ?subs" using d(3) by (rule set_takeWhileD[THEN conjunct1])
      then have "d \<in> set (subfolders folder)" by simp
      ultimately show ?thesis using d(1,2,4) by blast
    qed
  qed
  have b: "\<forall>d. set (image_files prof d) =
              {f \<in> set (listed d). is_file f = Inr True
                  \<and> py_lower (path_suffix (fpath f)) \<in> formats}
          \<and> sorted (map (\<lambda>f. sort_image_key prof (path_name (fpath f))) (image_files prof d))
          \<and> (folder_ok d \<longrightarrow> collect_images prof d = Inr (image_files prof d))"
    using image_files_set image_files_sorted collect_images_ok by blast
  have c: "scan_reads_ok prof True folder \<longrightarrow>
        raised ?res = None \<and> chapters ?res = chapters_of prof ?subs"
  proof
    assume "scan_reads_ok prof True folder"
    then have h: "readable folder" "list_all (\<lambda>d. \<not> isl (is_dir d)) (listed folder)"
      "list_all folder_ok (subfolders folder)"
      using assms(2) by (simp_all add: scan_reads_ok_def)
    from h(1) obtain entries where en: "iterdir folder = Inr entries"
      by (cases "iterdir folder") (simp_all add: readable_def)
    then have l: "listed folder = entries" by (simp add: listed_def)
    from filter_raising_ok[OF h(2)] l obtain subdirs where
      sd: "filter_raising is_dir entries = Inr subdirs" by simp
    have "\<forall>d \<in> set ?subs. folder_ok d" using h(3) by (simp add: list_all_iff)
    then have t: "takeWhile folder_ok ?subs = ?subs" by (simp add: takeWhile_eq_all_conv)
    have r: "raised ?res = None" using subfolder_scan(3)[OF assms en sd] h(3) by simp
    have "chapters ?res = chapters_of prof (takeWhile folder_ok ?subs)"
      using subfolder_scan(2)[OF assms en sd] .
    then have "chapters ?res = chapters_of prof ?subs" by (simp only: t)
    then show "raised ?res = None \<and> chapters ?res = chapters_of prof ?subs" using r by simp
  qed
  have d: "sorted (map ?ck ?subs)" by (rule sorted_sort_key)
  show ?thesis using a b c d by blast
qed

text \<open>
  Claim C9, amended. For a known profile, when a call the scan makes on the file system
  fails (listing the selected folder or a subdirectory, or asking whether an entry is a
  directory or a regular file), the entry is not skipped: the scan raises.
\<close>

theorem scan_unreadable_raises:
  assumes "PROFILES k = Some prof" and "\<not> scan_reads_ok prof flag folder"
  shows "raised (scan_images (Some folder) k flag) \<noteq> None"
proof (cases "expects_subfolders prof \<and> flag")
  case False
  then have "\<not> folder_ok folder" using assms(2) by (auto simp: scan_reads_ok_def)
  from collect_images_fails[OF this, of prof] obtain e where "collect_images prof folder = Inl e"
    by (cases "collect_images prof folder") simp_all
  then show ?thesis unfolding scan_images_flat[OF assms(1) False] by simp
next
  case True
  then have f: "flag = True" and e: "expects_subfolders prof" by simp_all
  have n: "\<not> (readable folder \<and> list_all (\<lambda>d. \<not> isl (is_dir d)) (listed folder)
        \<and> list_all folder_ok (subfolders folder))"
    using assms(2) True by (simp add: scan_reads_ok_def)
  show ?thesis
  proof (cases "isl (iterdir folder) \<or> isl (filter_raising is_dir (listed folder))")
    case True
    from subfolder_scan_early(2)[OF assms(1) e True] show ?thesis unfolding f .
  next
    case False
    then obtain entries where en: "iterdir folder = Inr entries"
      by (cases "iterdir folder") simp_all
    then have l: "listed folder = entries" and r: "readable folder"
      by (simp_all add: listed_def readable_def)
    then obtain subdirs where sd: "filter_raising is_dir entries = Inr subdirs"
      using False by (cases "filter_raising is_dir entries") simp_all
    have "list_all (\<lambda>d. \<not> isl (is_dir d)) (listed folder)"
      using filter_raising_fails[of is_dir entries] sd l by auto
    then have "\<not> list_all folder_ok (subfolders folder)" using n r by simp
    then show ?thesis unfolding f using subfolder_scan(3)[OF assms(1) e en sd] by simp
  qed
qed

lemma inmanga_profile:
  "PROFILES ''INMANGA'' = Some PROFILE_INMANGA" "expects_subfolders PROFILE_INMANGA"
  by (simp_all add: PROFILES_def PROFILE_TMO_def PROFILE_INMANGA_def)

lemma demo_root_reads_ok: "scan_reads_ok PROFILE_INMANGA True demo_root"
  by (simp add: scan_reads_ok_def inmanga_profile readable_def listed_def subfolders_def
        folder_ok_def demo_root_def dir_node_def leaf_def)

lemma demo_root_scan:
  "chapters (scan_images (Some demo_root) ''INMANGA'' True) =
     [\<lparr>name = ''Chapter 1'', dir = ''lib/Chapter 1'',
        images = [''lib/Chapter 1/9.jpeg'', ''lib/Chapter 1/10.jpg''], enabled = True\<rparr>,
      \<lparr>name = ''Chapter 10'', dir = ''lib/Chapter 10'',
        images = [''lib/Chapter 10/1.PNG'', ''lib/Chapter 10/2.jpg''], enabled = True\<rparr>]"
  by code_simp

theorem scan_subfolder_mode_witness:
  "PROFILES ''INMANGA'' = Some PROFILE_INMANGA \<and> expects_subfolders PROFILE_INMANGA
   \<and> scan_reads_ok PROFILE_INMANGA True demo_root
   \<and> length (subfolders demo_root) = 3
   \<and> raised (scan_images (Some demo_root) ''INMANGA'' True) = None
   \<and> chapters (scan_images (Some demo_root) ''INMANGA'' True) =
     [\<lparr>name = ''Chapter 1'', dir = ''lib/Chapter 1'',
        images = [''lib/Chapter 1/9.jpeg'', ''lib/Chapter 1/10.jpg''], enabled = True\<rparr>,
      \<lparr>name = ''Chapter 10'', dir = ''lib/Chapter 10'',
        images = [''lib/Chapter 10/1.PNG'', ''lib/Chapter 10/2.jpg''], enabled = True\<rparr>]"
proof -
  note t = scan_subfolder_mode[OF inmanga_profile, of demo_root]
  have n: "length (subfolders demo_root) = 3"
    by (simp add: subfolders_def listed_def demo_root_def dir_node_def leaf_def)
  have "raised (scan_images (Some demo_root) ''INMANGA'' True) = None"
    using t demo_root_reads_ok by blast
  then show ?thesis using inmanga_profile demo_root_reads_ok n demo_root_scan by blast
qed

text \<open>
  Claim C9 says that an entry that cannot be read is skipped and the scan goes on.
  It does not hold. With the folder of chapter 1 unreadable and the folder of chapter 2
  in order and holding an image, the scan raises, and the list of chapters is empty,
  chapter 2 included. The same happens when the status of an entry cannot be read.
\<close>

theorem scan_unreadable_counterexample:
  "folder_ok (hd (subfolders locked_root))
   \<and> image_files PROFILE_INMANGA (hd (subfolders locked_root)) \<noteq> []
   \<and> raised (scan_images (Some locked_root) ''INMANGA'' True) = Some OSError
   \<and> chapters (scan_images (Some locked_root) ''INMANGA'' True) = []
   \<and> raised (scan_images (Some guarded_root) ''INMANGA'' True) = Some OSError
   \<and> chapters (scan_images (Some guarded_root) ''INMANGA'' True) = []"
  by code_simp

theorem scan_unreadable_raises_witness:
  "PROFILES ''INMANGA'' = Some PROFILE_INMANGA
   \<and> \<not> scan_reads_ok PROFILE_INMANGA True locked_root
   \<and> raised (scan_images (Some locked_root) ''INMANGA'' True) \<noteq> None"
proof -
  have n: "\<not> scan_reads_ok PROFILE_INMANGA True locked_root"
    by (simp add: scan_reads_ok_def inmanga_profile readable_def listed_def subfolders_def
          folder_ok_def locked_root_def dir_node_def leaf_def)
  from scan_unreadable_raises[OF inmanga_profile(1) n]
  show ?thesis using inmanga_profile(1) n by blast
qed

section \<open>Properties of the enhancement pipeline and of the page export\<close>

lemma then_do_Inr [simp]: "then_do (Inr x) f = f x"
  by (simp add: then_do_def)

lemma then_do_applied [simp]: "then_do (applied s img) f = f (img\<lparr>hist := hist img @ [s]\<rparr>)"
  by (simp add: applied_def)

lemma or_keep_applied [simp]: "or_keep (applied s img) x = img\<lparr>hist := hist img @ [s]\<rparr>"
  by (simp add: applied_def or_keep_def)

lemma trace_ops_fields [simp]:
  "open_rgb (trace_ops dims bb) = (\<lambda>p. Inr \<lparr>sw = fst (dims p), sh = snd (dims p), hist = []\<rparr>)"
  "img_width (trace_ops dims bb) = sw"
  "img_height (trace_ops dims bb) = sh"
  "resize_lanczos (trace_ops dims bb) =
     (\<lambda>img (w, h). if w < 1 \<or> h < 1 then Inl ValueError
        else Inr (img\<lparr>sw := w, sh := h, hist := hist img @ [Resize w h]\<rparr>))"
  "save_jpeg (trace_ops dims bb) = (\<lambda>img out q. Inr ())"
  "grayscale_rgb (trace_ops dims bb) = applied Grayscale"
  "autocontrast (trace_ops dims bb) = applied Autocontrast"
  "bilateral_filter (trace_ops dims bb) = applied Bilateral"
  "adaptive_threshold_gaussian (trace_ops dims bb) = applied AdaptiveThreshold"
  "clahe (trace_ops dims bb) = (\<lambda>clip tile. applied (Clahe clip tile))"
  "gaussian_unsharp (trace_ops dims bb) = (\<lambda>radius amount. applied (Unsharp radius amount))"
  "fast_nl_means (trace_ops dims bb) = (\<lambda>strength. applied (NlMeans strength))"
  "ni_black_threshold (trace_ops dims bb) = applied NiBlack"
  "content_rect (trace_ops dims bb) = (\<lambda>img. Inr bb)"
  "crop (trace_ops dims bb) = (\<lambda>r. applied (Crop r))"
  "pad_white (trace_ops dims bb) = (\<lambda>n. applied (PadWhite n))"
  "enhance_contrast (trace_ops dims bb) = (\<lambda>f. applied (Contrast f))"
  "enhance_sharpness (trace_ops dims bb) = (\<lambda>f. applied (Sharpness f))"
  "quantize_dither (trace_ops dims bb) = applied Dither"
  by (simp_all add: trace_ops_def)

lemma trace_preset_branch:
  "preset_branch (trace_ops dims bb) cfg (py_lower (py_strip ident)) img =
     Inr (img\<lparr>hist := hist img @ preset_stages cfg ident\<rparr>)"
  by (simp add: preset_branch_def preset_stages_def ci_prefix_def clahe_gray_def
        unsharp_mask_def nl_means_def sauvola_like_def applied_def)

lemma trace_trim:
  "auto_trim_and_pad (trace_ops dims bb) img 16 = Inr (img\<lparr>hist := hist img @ trim_stage bb\<rparr>)"
  by (cases bb) (simp_all add: auto_trim_and_pad_def trim_stage_def applied_def)

lemma trace_pre_pass:
  "(let img3 = (if noise_reduction cfg then or_keep (bilateral_filter (trace_ops dims bb) img2) img2 else img2);
        img4 = (if adaptive_threshold cfg
                 then or_keep (adaptive_threshold_gaussian (trace_ops dims bb) img3) img3 else img3)
    in f img4) =
   f (img2\<lparr>hist := hist img2 @ (if noise_reduction cfg then [Bilateral] else [])
                @ (if adaptive_threshold cfg then [AdaptiveThreshold] else [])\<rparr>)"
  by (simp add: Let_def)

lemma trace_toggle:
  "then_do (if b then applied s img else Inr img) f =
     f (img\<lparr>hist := hist img @ (if b then [s] else [])\<rparr>)"
  by simp

lemma trace_enhance:
  "enhance_image_preset (trace_ops dims bb) cfg img ident =
     Inr (img\<lparr>hist := hist img @ spec_stage_order cfg ident bb\<rparr>)"
  unfolding enhance_image_preset_def trace_ops_fields(6,7,17,18,19) trace_toggle trace_pre_pass
  by (simp add: trace_preset_branch trace_trim spec_stage_order_def pre_pass_def applied_def)


text \<open>
  Claim C5. For every image, preset identifier and configuration, the pipeline applies
  its stages in the fixed order of the specification: run on a symbolic image, it
  returns that image with exactly the stages of \<open>spec_stage_order\<close> added to its
  history, in that order.
\<close>

theorem enhancement_stage_order:
  "enhance_image_preset (trace_ops dims bb) cfg img ident =
     Inr (img\<lparr>hist := hist img @ spec_stage_order cfg ident bb\<rparr>)"
  by (rule trace_enhance)

lemma demo_ident:
  "py_lower (py_strip ''  MANGA LIMPIO (x)'') = ''manga limpio (x)''"
  "py_lower (py_strip ''other'') = ''other''"
  by code_simp+

lemma demo_stage_order:
  "spec_stage_order default_config ''  MANGA LIMPIO (x)'' (Some (3, 4, 50, 60)) =
     [Autocontrast, Bilateral, Clahe 2.0 8, Unsharp 1.0 0.6, Crop (3, 4, 50, 60), PadWhite 16,
      Contrast 1.15, Sharpness 1.2]"
  "spec_stage_order (default_config\<lparr>eink_dither := True, to_grayscale := True\<rparr>) ''other'' None =
     [Grayscale, Autocontrast, Bilateral, Contrast 1.15, Sharpness 1.2, Dither]"
  by (simp_all add: spec_stage_order_def pre_pass_def preset_stages_def trim_stage_def
        default_config_def ci_prefix_def py_startswith_def demo_ident)

theorem enhancement_stage_order_witness:
  "enhance_image_preset (trace_ops (\<lambda>p. (800, 1200)) (Some (3, 4, 50, 60))) default_config
       \<lparr>sw = 800, sh = 1200, hist = []\<rparr> ''  MANGA LIMPIO (x)'' =
     Inr \<lparr>sw = 800, sh = 1200,
          hist = [Autocontrast, Bilateral, Clahe 2.0 8, Unsharp 1.0 0.6, Crop (3, 4, 50, 60),
                  PadWhite 16, Contrast 1.15, Sharpness 1.2]\<rparr>"
  using enhancement_stage_order[of "\<lambda>p. (800, 1200)" "Some (3, 4, 50, 60)" default_config
      "\<lparr>sw = 800, sh = 1200, hist = []\<rparr>" "''  MANGA LIMPIO (x)''"]
  by (simp add: demo_stage_order)

lemma py_trunc_quot_nonneg: "0 \<le> a \<Longrightarrow> 0 < b \<Longrightarrow> py_trunc_quot a b = a div b"
  by (cases "a = 0") (simp_all add: py_trunc_quot_def)

lemma helpers_ignore_resize:
  "clahe_gray (ops\<lparr>resize_lanczos := r\<rparr>) = clahe_gray ops"
  "unsharp_mask (ops\<lparr>resize_lanczos := r\<rparr>) = unsharp_mask ops"
  "nl_means (ops\<lparr>resize_lanczos := r\<rparr>) = nl_means ops"
  "sauvola_like (ops\<lparr>resize_lanczos := r\<rparr>) = sauvola_like ops"
  "auto_trim_and_pad (ops\<lparr>resize_lanczos := r\<rparr>) = auto_trim_and_pad ops"
  by (simp_all add: fun_eq_iff clahe_gray_def unsharp_mask_def nl_means_def sauvola_like_def
        auto_trim_and_pad_def cong: sum.case_cong option.case_cong if_cong)

lemma preset_branch_ignores_resize:
  "preset_branch (ops\<lparr>resize_lanczos := r\<rparr>) = preset_branch ops"
  by (simp add: fun_eq_iff preset_branch_def helpers_ignore_resize)

lemma enhance_ignores_resize:
  "enhance_image (ops\<lparr>resize_lanczos := r\<rparr>) cfg img = enhance_image ops cfg img"
  unfolding enhance_image_def enhance_image_preset_def preset_branch_ignores_resize
    helpers_ignore_resize
  by (simp cong: if_cong)

lemma finish_ignores_resize:
  "finish_page (ops\<lparr>resize_lanczos := r\<rparr>) cfg img dest n = finish_page ops cfg img dest n"
  by (simp add: finish_page_def enhance_ignores_resize)

lemma process_small:
  assumes "open_rgb ops src = Inr img" and "img_width ops img \<le> target_width cfg"
  shows "process_single_image_seq ops cfg src dest n = finish_page ops cfg img dest n"
  using assms by (simp add: process_single_image_seq_def)

lemma process_without_resize:
  assumes "open_rgb ops src = Inr img" and "img_width ops img \<le> target_width cfg"
  shows "process_single_image_seq (ops\<lparr>resize_lanczos := r\<rparr>) cfg src dest n =
         process_single_image_seq ops cfg src dest n"
  using assms by (simp add: process_single_image_seq_def finish_ignores_resize)

lemma process_large:
  assumes "open_rgb ops src = Inr img" and "target_width cfg < img_width ops img"
    and "img_width ops img \<noteq> 0"
  shows "process_single_image_seq ops cfg src dest n =
     then_do (resize_lanczos ops img
                (target_width cfg,
                 py_trunc_quot (img_height ops img * target_width cfg) (img_width ops img)))
       (\<lambda>resized. finish_page ops cfg resized dest n)"
  using assms by (simp add: process_single_image_seq_def)

lemma trace_finish:
  "finish_page (trace_ops dims bb) cfg img dest n =
     Inr (dest @ ''/'' @ zfill 5 n @ ''.jpg'',
          img\<lparr>hist := hist img @ spec_stage_order cfg (preset_name cfg) bb\<rparr>)"
  by (simp add: finish_page_def enhance_image_def trace_enhance Let_def)

lemma trace_process:
  assumes "dims src = (w, h)" and "0 < w"
  shows "process_single_image_seq (trace_ops dims bb) cfg src dest n =
     (if w > target_width cfg
      then (if target_width cfg < 1 \<or> py_trunc_quot (h * target_width cfg) w < 1
            then Inl ValueError
            else Inr (dest @ ''/'' @ zfill 5 n @ ''.jpg'',
                   \<lparr>sw = target_width cfg, sh = py_trunc_quot (h * target_width cfg) w,
                    hist = Resize (target_width cfg) (py_trunc_quot (h * target_width cfg) w)
                           # spec_stage_order cfg (preset_name cfg) bb\<rparr>))
      else Inr (dest @ ''/'' @ zfill 5 n @ ''.jpg'',
             \<lparr>sw = w, sh = h, hist = spec_stage_order cfg (preset_name cfg) bb\<rparr>))"
  using assms
  by (simp add: process_single_image_seq_def trace_finish then_do_def)

lemma py_trunc_quot_floor:
  assumes "0 < w" "0 \<le> h" "0 \<le> tw"
  shows "py_trunc_quot (h * tw) w = \<lfloor>real_of_int h * real_of_int tw / real_of_int w\<rfloor>"
proof -
  have "0 \<le> h * tw" using assms by simp
  then have "py_trunc_quot (h * tw) w = (h * tw) div w"
    using assms(1) by (rule py_trunc_quot_nonneg)
  also have "\<dots> = \<lfloor>real_of_int (h * tw) / real_of_int w\<rfloor>"
    by (simp only: floor_divide_of_int_eq)
  finally show ?thesis by simp
qed

lemma demo_pre_resize:
  "target_width default_config = 1200"
  by (simp add: default_config_def)

text \<open>
  Claim C10 says that a page wider than the target width is downscaled to exactly the
  target width. It does not hold for every page: for a page of 2401 by 1 at the
  target width 1200 the truncated height is 0, the resize is refused, and the page
  fails instead of being downscaled.
\<close>

theorem resize_before_enhancement_counterexample:
  "target_width default_config < 2401
   \<and> py_trunc_quot (1 * target_width default_config) 2401 = 0
   \<and> process_single_image_seq (trace_ops (\<lambda>p. (2401, 1)) None) default_config
        ''p.png'' ''out'' 1 = Inl ValueError"
  using trace_process[of "\<lambda>p. (2401, 1)" "''p.png''" 2401 1 None default_config "''out''" 1]
  by (simp add: demo_pre_resize py_trunc_quot_def)

text \<open>
  Claim C10, amended. For every page that opens, and for any image operations: if its
  width is at most the target width, it goes to the pipeline as it is, and the result
  does not depend on the resize operation (it is never resized); if its width exceeds
  the target width, a resize to exactly the target width and to the height
  \<open>h * target / w\<close> truncated to an integer is requested before the pipeline runs, the
  pipeline runs on the resized image when the resize is performed, and the page fails
  when the resize raises. On symbolic images, whose resize refuses a width or a height
  below 1: the page wider than the target is resized first and then goes through the
  stages of the pipeline when the target width and the truncated height are at least 1,
  and fails otherwise. For sizes that are not negative the truncated quotient is the
  floor of the proportional height.
\<close>

theorem resize_before_enhancement:
  "(\<forall>img. open_rgb ops src = Inr img \<longrightarrow> img_width ops img \<le> target_width cfg \<longrightarrow>
        process_single_image_seq ops cfg src dest n = finish_page ops cfg img dest n
        \<and> (\<forall>r. process_single_image_seq (ops\<lparr>resize_lanczos := r\<rparr>) cfg src dest n =
                 process_single_image_seq ops cfg src dest n))
   \<and> (\<forall>img. open_rgb ops src = Inr img \<longrightarrow> target_width cfg < img_width ops img \<longrightarrow>
        img_width ops img \<noteq> 0 \<longrightarrow>
        process_single_image_seq ops cfg src dest n =
          then_do (resize_lanczos ops img
                     (target_width cfg,
                      py_trunc_quot (img_height ops img * target_width cfg) (img_width ops img)))
            (\<lambda>resized. finish_page ops cfg resized dest n))
   \<and> (\<forall>w h. dims src = (w, h) \<longrightarrow> 0 < w \<longrightarrow>
        process_single_image_seq (trace_ops dims bb) cfg src dest n =
          (if w > target_width cfg
           then (if target_width cfg < 1 \<or> py_trunc_quot (h * target_width cfg) w < 1
                 then Inl ValueError
                 else Inr (dest @ ''/'' @ zfill 5 n @ ''.jpg'',
                        \<lparr>sw = target_width cfg, sh = py_trunc_quot (h * target_width cfg) w,
                         hist = Resize (target_width cfg) (py_trunc_quot (h * target_width cfg) w)
                                # spec_stage_order cfg (preset_name cfg) bb\<rparr>))
           else Inr (dest @ ''/'' @ zfill 5 n @ ''.jpg'',
                  \<lparr>sw = w, sh = h, hist = spec_stage_order cfg (preset_name cfg) bb\<rparr>)))
   \<and> (\<forall>w h. 0 < w \<longrightarrow> 0 \<le> h \<longrightarrow> 0 \<le> target_width cfg \<longrightarrow>
        py_trunc_quot (h * target_width cfg) w =
          \<lfloor>real_of_int h * real_of_int (target_width cfg) / real_of_int w\<rfloor>)"
proof -
  have a: "\<forall>img. open_rgb ops src = Inr img \<longrightarrow> img_width ops img \<le> target_width cfg \<longrightarrow>
        process_single_image_seq ops cfg src dest n = finish_page ops cfg img dest n
        \<and> (\<forall>r. process_single_image_seq (ops\<lparr>resize_lanczos := r\<rparr>) cfg src dest n =
                 process_single_image_seq ops cfg src dest n)"
    using process_small[of ops src _ cfg dest n] process_without_resize[of ops src _ cfg _ dest n]
    by blast
  have b: "\<forall>img. open_rgb ops src = Inr img \<longrightarrow> target_width cfg < img_width ops img \<longrightarrow>
        img_width ops img \<noteq> 0 \<longrightarrow>
        process_single_image_seq ops cfg src dest n =
          then_do (resize_lanczos ops img
                     (target_width cfg,
                      py_trunc_quot (img_height ops img * target_width cfg) (img_width ops img)))
            (\<lambda>resized. finish_page ops cfg resized dest n)"
    using process_large[of ops src _ cfg dest n] by blast
  have c: "\<forall>w h. dims src = (w, h) \<longrightarrow> 0 < w \<longrightarrow>
        process_single_image_seq (trace_ops dims bb) cfg src dest n =
          (if w > target_width cfg
           then (if target_width cfg < 1 \<or> py_trunc_quot (h * target_width cfg) w < 1
                 then Inl ValueError
                 else Inr (dest @ ''/'' @ zfill 5 n @ ''.jpg'',
                        \<lparr>sw = target_width cfg, sh = py_trunc_quot (h * target_width cfg) w,
                         hist = Resize (target_width cfg) (py_trunc_quot (h * target_width cfg) w)
                                # spec_stage_order cfg (preset_name cfg) bb\<rparr>))
           else Inr (dest @ ''/'' @ zfill 5 n @ ''.jpg'',
                  \<lparr>sw = w, sh = h, hist = spec_stage_order cfg (preset_name cfg) bb\<rparr>))"
    using trace_process[of dims src _ _ bb cfg dest n] by blast
  have d: "\<forall>w h. 0 < w \<longrightarrow> 0 \<le> h \<longrightarrow> 0 \<le> target_width cfg \<longrightarrow>
        py_trunc_quot (h * target_width cfg) w =
          \<lfloor>real_of_int h * real_of_int (target_width cfg) / real_of_int w\<rfloor>"
    using py_trunc_quot_floor[of _ _ "target_width cfg"] by blast
  show ?thesis using a b c d by blast
qed

theorem resize_before_enhancement_witness:
  "process_single_image_seq (trace_ops (\<lambda>p. (2400, 3601)) None) default_config ''p.png'' ''out'' 1
      = Inr (''out'' @ ''/'' @ zfill 5 1 @ ''.jpg'',
          \<lparr>sw = 1200, sh = 1800,
            hist = Resize 1200 1800 # spec_stage_order default_config (preset_name default_config) None\<rparr>)
   \<and> process_single_image_seq (trace_ops (\<lambda>p. (1200, 1800)) None) default_config ''p.png'' ''out'' 1
      = Inr (''out'' @ ''/'' @ zfill 5 1 @ ''.jpg'',
          \<lparr>sw = 1200, sh = 1800,
            hist = spec_stage_order default_config (preset_name default_config) None\<rparr>)"
proof -
  have a: "process_single_image_seq (trace_ops (\<lambda>p. (2400, 3601)) None) default_config ''p.png'' ''out'' 1
      = Inr (''out'' @ ''/'' @ zfill 5 1 @ ''.jpg'',
          \<lparr>sw = 1200, sh = 1800,
            hist = Resize 1200 1800 # spec_stage_order default_config (preset_name default_config) None\<rparr>)"
    using resize_before_enhancement[of "trace_ops (\<lambda>p. (2400, 3601)) None" "''p.png''"
        default_config "''out''" 1 "\<lambda>p. (2400, 3601)" None,
        THEN conjunct2, THEN conjunct2, THEN conjunct1]
    by (simp add: demo_pre_resize py_trunc_quot_def)
  have b: "process_single_image_seq (trace_ops (\<lambda>p. (1200, 1800)) None) default_config ''p.png'' ''out'' 1
      = Inr (''out'' @ ''/'' @ zfill 5 1 @ ''.jpg'',
          \<lparr>sw = 1200, sh = 1800,
            hist = spec_stage_order default_config (preset_name default_config) None\<rparr>)"
    using resize_before_enhancement[of "trace_ops (\<lambda>p. (1200, 1800)) None" "''p.png''"
        default_config "''out''" 1 "\<lambda>p. (1200, 1800)" None,
        THEN conjunct2, THEN conjunct2, THEN conjunct1]
    by (simp add: demo_pre_resize py_trunc_quot_def)
  show ?thesis using a b by blast
qed

end
